theory Spec2Isabelle
  imports Complex_Main "HOL-Library.Multiset"
begin

section \<open>The distributed table of \<^verbatim>\<open>core/table/distributed_table.h\<close>\<close>

text \<open>
  A shallow embedding of \<^verbatim>\<open>core::table::DistributedTable\<close> and of its
  \<^verbatim>\<open>TreeIterator\<close>. Isabelle does not accept a name that ends with an underscore, so
  the trailing underscore of a private member of the source is written as a prime:
  \<^verbatim>\<open>global_table_\<close> is \<open>global_table'\<close>, \<^verbatim>\<open>iterator_get_\<close> is \<open>iterator_get'\<close>.

  Pointers are options (\<open>None\<close> is \<^verbatim>\<open>NULL\<close>). A dereference of \<^verbatim>\<open>NULL\<close>, a read or
  write outside an array and a blocking receive that no send matches have no defined
  result in C++ and MPI; each is a value of \<open>error\<close>, and a function that can reach one
  returns \<open>error + 'a\<close>. Ranks, counts and tags stay far below \<open>2 ^ 31\<close> in a process
  group, so the \<^verbatim>\<open>int\<close>s of the source are \<open>int\<close> where a negative value can occur and
  \<open>nat\<close> where the source keeps them non-negative.

  A \<^verbatim>\<open>double\<close> is a value of the type parameter \<open>'d\<close>. The tables and the cursor store
  and return doubles and never compute with them. Where the source computes with doubles
  it does so through the operations of a record \<open>'d arith\<close>, which are arguments of the
  model: nothing is assumed of them, so what is proved holds for the rounding, the
  infinities and the NaNs of IEEE arithmetic as for any other arithmetic.
\<close>

datatype error =
    NullDereference
  | OutOfBounds
  | Deadlock
  | DimensionMismatch
  | UninitialisedPoints

type_synonym 'd point = "'d list"

record 'd arith =
  d_zero :: 'd
  d_one :: 'd
  d_max :: 'd
  d_add :: "'d \<Rightarrow> 'd \<Rightarrow> 'd"
  d_mul :: "'d \<Rightarrow> 'd \<Rightarrow> 'd"
  d_div :: "'d \<Rightarrow> 'd \<Rightarrow> 'd"
  d_less :: "'d \<Rightarrow> 'd \<Rightarrow> bool"
  d_of_int :: "int \<Rightarrow> 'd"
  d_floor_mul :: "'d \<Rightarrow> int \<Rightarrow> int"

text \<open>
  \<open>d_max\<close> is \<^verbatim>\<open>std::numeric_limits<double>::max()\<close>, \<open>d_of_int n\<close> is
  \<^verbatim>\<open>static_cast<double>(n)\<close>, and \<open>d_floor_mul p n\<close> is \<^verbatim>\<open>(int) floor(p * n)\<close> for a
  double \<open>p\<close> and an integer \<open>n\<close>.
\<close>

text \<open>
  Modelled from the spec: \<^verbatim>\<open>core::tree::GeneralBinarySpaceTree\<close> (its header is not among
  the sources). A node is a region descriptor: the centroid of its bound and the
  range \<open>[begin, begin + count)\<close> of storage positions of its points.
\<close>

record 'd TreeType =
  center :: "'d point"
  node_begin :: int
  node_count :: int

text \<open>
  Modelled from the spec: \<^verbatim>\<open>core::table::Table\<close> (its header is not among the sources):
  a dense matrix with one column per point, the permutation array that gives the
  original identifier of the point at each storage position, and the root of the tree
  (\<^verbatim>\<open>NULL\<close> until the table is indexed).
\<close>

record 'd table =
  data :: "'d point list"
  old_from_new :: "int list"
  tree :: "'d TreeType option"

definition n_entries :: "'d table \<Rightarrow> int" where
  "n_entries t = int (length (data t))"

text \<open>
  A \<^verbatim>\<open>boost::mpi::communicator\<close>, as far as the table reads it: \<^verbatim>\<open>rank()\<close> and
  \<^verbatim>\<open>size()\<close>.
\<close>

record communicator =
  comm_rank :: nat
  comm_size :: nat

record 'd DistributedTable =
  owned_table' :: "'d table option"
  local_n_entries' :: "int list option"
  global_table' :: "'d table option"
  table_outbox_group_comm_size' :: int

subsection \<open>Construction and \<^verbatim>\<open>Init\<close>\<close>

definition DistributedTable :: "'d DistributedTable" where
  "DistributedTable =
     \<lparr>owned_table' = None, local_n_entries' = None, global_table' = None,
      table_outbox_group_comm_size' = - 1\<rparr>"

text \<open>
  \<^verbatim>\<open>Init(file_name, comm)\<close>. The table read from the file is the argument \<open>loaded\<close>
  (the loader is an external collaborator); \<open>peers r\<close> is the entry count that rank
  \<open>r\<close> contributes to the all-gather. \<^verbatim>\<open>global_table_\<close> is not assigned.
\<close>

definition all_gather :: "communicator \<Rightarrow> int \<Rightarrow> (nat \<Rightarrow> int) \<Rightarrow> int list" where
  "all_gather comm mine peers =
     map (\<lambda>r. if r = comm_rank comm then mine else peers r) [0..<comm_size comm]"

definition Init ::
  "'d table \<Rightarrow> communicator \<Rightarrow> (nat \<Rightarrow> int) \<Rightarrow> 'd DistributedTable \<Rightarrow> 'd DistributedTable" where
  "Init loaded comm peers t =
     t\<lparr>owned_table' := Some loaded,
       table_outbox_group_comm_size' := int (comm_size comm),
       local_n_entries' := Some (all_gather comm (n_entries loaded) peers)\<rparr>"

subsection \<open>\<^verbatim>\<open>local_n_entries\<close> and \<^verbatim>\<open>IsIndexed\<close>\<close>

text \<open>
  \<^verbatim>\<open>local_n_entries(rank_in)\<close> returns a value and may print a diagnostic; the second
  component of the result is the pair of numbers printed, if any. The only test is
  \<^verbatim>\<open>rank_in >= table_outbox_group_comm_size_\<close>; the array is then read at \<open>rank_in\<close>.
\<close>

definition local_n_entries :: "'d DistributedTable \<Rightarrow> int \<Rightarrow> error + int \<times> (int \<times> int) option" where
  "local_n_entries t rank_in =
     (if rank_in \<ge> table_outbox_group_comm_size' t
      then Inr (- 1, Some (rank_in, table_outbox_group_comm_size' t))
      else (case local_n_entries' t of
              None \<Rightarrow> Inl NullDereference
            | Some dir \<Rightarrow>
                if 0 \<le> rank_in \<and> rank_in < int (length dir)
                then Inr (dir ! nat rank_in, None)
                else Inl OutOfBounds))"

text \<open>
  \<^verbatim>\<open>IsIndexed()\<close> is \<^verbatim>\<open>global_table_->get_tree() != NULL\<close>: it dereferences
  \<^verbatim>\<open>global_table_\<close> without a test.
\<close>

definition IsIndexed :: "'d DistributedTable \<Rightarrow> error + bool" where
  "IsIndexed t =
     (case global_table' t of
        None \<Rightarrow> Inl NullDereference
      | Some g \<Rightarrow> Inr (tree g \<noteq> None))"

subsection \<open>The traversal cursor \<^verbatim>\<open>TreeIterator\<close>\<close>

text \<open>
  The cursor holds three integers and a pointer \<^verbatim>\<open>table_\<close> to the distributed table.
  The pointer is the argument \<open>t\<close> of every operation that follows it. The accessors
  \<^verbatim>\<open>begin()\<close>, \<^verbatim>\<open>end()\<close> and \<^verbatim>\<open>current_index()\<close> are the fields themselves.
\<close>

record TreeIterator =
  begin' :: int
  end' :: int
  current_index' :: int

definition get_node_iterator :: "'d TreeType \<Rightarrow> TreeIterator" where
  "get_node_iterator node =
     \<lparr>begin' = node_begin node, end' = node_begin node + node_count node,
      current_index' = node_begin node - 1\<rparr>"

definition get_node_iterator_range :: "int \<Rightarrow> int \<Rightarrow> TreeIterator" where
  "get_node_iterator_range b n =
     \<lparr>begin' = b, end' = b + n, current_index' = b - 1\<rparr>"

definition HasNext :: "TreeIterator \<Rightarrow> bool" where
  "HasNext c \<longleftrightarrow> current_index' c < end' c - 1"

definition Reset :: "TreeIterator \<Rightarrow> TreeIterator" where
  "Reset c = c\<lparr>current_index' := begin' c - 1\<rparr>"

definition count_iterator :: "TreeIterator \<Rightarrow> int" where
  "count_iterator c = end' c - begin' c"

text \<open>
  \<^verbatim>\<open>iterator_get_\<close> makes the entry an alias of a column of \<^verbatim>\<open>global_table_->data()\<close>.
  Modelled from the spec: \<^verbatim>\<open>MakeColumnVector\<close> of the dense matrix (not among the
  sources) gives the column at a position; a position outside the matrix is an error.
\<close>

definition MakeColumnVector :: "'d point list \<Rightarrow> int \<Rightarrow> error + 'd point" where
  "MakeColumnVector m pos =
     (if 0 \<le> pos \<and> pos < int (length m) then Inr (m ! nat pos) else Inl OutOfBounds)"

definition iterator_get' :: "'d DistributedTable \<Rightarrow> int \<Rightarrow> error + 'd point" where
  "iterator_get' t reordered_position =
     (case global_table' t of
        None \<Rightarrow> Inl NullDereference
      | Some g \<Rightarrow> MakeColumnVector (data g) reordered_position)"

text \<open>
  Modelled from the spec: \<^verbatim>\<open>IndexUtil::Extract(array, position)\<close> (not among the
  sources) reads the original identifier kept at a position of a permutation array.
\<close>

definition Extract :: "int list \<Rightarrow> int \<Rightarrow> error + int" where
  "Extract array pos =
     (if 0 \<le> pos \<and> pos < int (length array) then Inr (array ! nat pos) else Inl OutOfBounds)"

definition iterator_get_id' :: "'d DistributedTable \<Rightarrow> int \<Rightarrow> error + int" where
  "iterator_get_id' t reordered_position =
     (case IsIndexed t of
        Inl e \<Rightarrow> Inl e
      | Inr indexed \<Rightarrow>
          if indexed = False then Inr reordered_position
          else (case global_table' t of
                  None \<Rightarrow> Inl NullDereference
                | Some g \<Rightarrow> Extract (old_from_new g) reordered_position))"

text \<open>\<^verbatim>\<open>Next()\<close> without arguments only moves the cursor.\<close>

definition Next_step :: "TreeIterator \<Rightarrow> TreeIterator" where
  "Next_step c = c\<lparr>current_index' := current_index' c + 1\<rparr>"

text \<open>
  \<^verbatim>\<open>Next(entry, point_id)\<close>: the cursor after the call, the entry and the identifier.
\<close>

definition Next :: "TreeIterator \<Rightarrow> 'd DistributedTable \<Rightarrow> error + TreeIterator \<times> 'd point \<times> int" where
  "Next c t =
     (let c1 = c\<lparr>current_index' := current_index' c + 1\<rparr> in
      case iterator_get' t (current_index' c1) of
        Inl e \<Rightarrow> Inl e
      | Inr entry \<Rightarrow>
          (case iterator_get_id' t (current_index' c1) of
             Inl e \<Rightarrow> Inl e
           | Inr point_id \<Rightarrow> Inr (c1, entry, point_id)))"

definition get :: "TreeIterator \<Rightarrow> 'd DistributedTable \<Rightarrow> int \<Rightarrow> error + 'd point" where
  "get c t i = iterator_get' t (begin' c + i)"

definition get_id :: "TreeIterator \<Rightarrow> 'd DistributedTable \<Rightarrow> int \<Rightarrow> error + int" where
  "get_id c t i = iterator_get_id' t (begin' c + i)"

text \<open>
  \<^verbatim>\<open>RandomPick\<close>. Modelled from the spec: \<^verbatim>\<open>core::math::Random(lo, hi)\<close> (not among the
  sources) draws a position of \<open>[lo, hi)\<close>; the function \<open>Random\<close> passed to the model
  gives the outcome of the draw. The overload with an identifier stores the drawn
  number in \<^verbatim>\<open>*point_id\<close> and reads the entry at it; \<^verbatim>\<open>iterator_get_id_\<close> is not called.
\<close>

definition RandomPick :: "TreeIterator \<Rightarrow> 'd DistributedTable \<Rightarrow> (int \<Rightarrow> int \<Rightarrow> int) \<Rightarrow> error + 'd point" where
  "RandomPick c t Random = iterator_get' t (Random (begin' c) (end' c))"

definition RandomPick_id ::
  "TreeIterator \<Rightarrow> 'd DistributedTable \<Rightarrow> (int \<Rightarrow> int \<Rightarrow> int) \<Rightarrow> error + 'd point \<times> int" where
  "RandomPick_id c t Random =
     (let point_id = Random (begin' c) (end' c) in
      case iterator_get' t point_id of
        Inl e \<Rightarrow> Inl e
      | Inr entry \<Rightarrow> Inr (entry, point_id))"

subsection \<open>An example state\<close>

text \<open>
  The state of rank 0 after \<^verbatim>\<open>IndexData\<close> in a group of two processes: the shard holds
  the points \<open>[1]\<close> and \<open>[2]\<close>, the global table holds one centroid per process, and
  its tree build has exchanged the two centroids.
\<close>

definition shard_ex :: "real table" where
  "shard_ex =
     \<lparr>data = [[1], [2]], old_from_new = [0, 1],
      tree = Some \<lparr>center = [3 / 2], node_begin = 0, node_count = 2\<rparr>\<rparr>"

definition summary_ex :: "real table" where
  "summary_ex =
     \<lparr>data = [[7 / 2], [3 / 2]], old_from_new = [1, 0],
      tree = Some \<lparr>center = [5 / 2], node_begin = 0, node_count = 2\<rparr>\<rparr>"

definition table_ex :: "real DistributedTable" where
  "table_ex =
     \<lparr>owned_table' = Some shard_ex, local_n_entries' = Some [2, 2],
      global_table' = Some summary_ex, table_outbox_group_comm_size' = 2\<rparr>"

definition cursor_ex :: TreeIterator where
  "cursor_ex = get_node_iterator_range 0 2"

definition Random_lo :: "int \<Rightarrow> int \<Rightarrow> int" where
  "Random_lo lo hi = lo"

subsection \<open>Leaf-set padding: \<^verbatim>\<open>ReplenishNodes_\<close>\<close>

text \<open>
  Modelled from the spec: the default-constructed node \<^verbatim>\<open>new TreeType()\<close> carries no
  points; \<^verbatim>\<open>ReplenishNodes_\<close> then copies a centroid into it and sets nothing else.
\<close>

definition TreeType_new :: "'d TreeType" where
  "TreeType_new = \<lparr>center = [], node_begin = 0, node_count = 0\<rparr>"

text \<open>
  Modelled from the spec: \<^verbatim>\<open>core::math::RandInt(n)\<close> (not among the sources) draws a number
  of \<open>[0, n)\<close>. The calls of one run are numbered from 0 in the order in which they are
  made, and the argument \<open>RandInt k n\<close> of the model is the outcome of call number \<open>k\<close>,
  made with bound \<open>n\<close>. \<open>RandInt_ok\<close> is the contract of the generator.
\<close>

definition RandInt_ok :: "(nat \<Rightarrow> int \<Rightarrow> int) \<Rightarrow> bool" where
  "RandInt_ok RandInt \<longleftrightarrow> (\<forall>k n. 0 < n \<longrightarrow> 0 \<le> RandInt k n \<and> RandInt k n < n)"

text \<open>
  The inner loop (\<^verbatim>\<open>for i < num_samples\<close>) adds the centroid of a drawn node to
  \<^verbatim>\<open>tmp_point_alias\<close>, component by component, with the addition of doubles. The bound
  of each draw is the size of the list at that moment. The first numeric argument counts
  the iterations that remain and \<open>k\<close> the draws made so far. Armadillo refuses to add
  vectors of different lengths.
\<close>

fun sum_random_centers ::
  "'d arith \<Rightarrow> (nat \<Rightarrow> int \<Rightarrow> int) \<Rightarrow> 'd TreeType list \<Rightarrow> nat \<Rightarrow> nat \<Rightarrow> 'd point \<Rightarrow>
   error + 'd point \<times> nat" where
  "sum_random_centers A RandInt nodes 0 k acc = Inr (acc, k)"
| "sum_random_centers A RandInt nodes (Suc n) k acc =
     (let idx = RandInt k (int (length nodes)) in
      if 0 \<le> idx \<and> idx < int (length nodes) then
        (if length (center (nodes ! nat idx)) = length acc
         then sum_random_centers A RandInt nodes n (Suc k)
                (map2 (d_add A) acc (center (nodes ! nat idx)))
         else Inl DimensionMismatch)
      else Inl OutOfBounds)"

text \<open>
  The outer loop (\<^verbatim>\<open>for j < num_additional\<close>): zero the accumulator, run the inner loop,
  multiply every component by the double \<^verbatim>\<open>1.0 / static_cast<double>(num_samples)\<close> and
  push a new node with that centroid. \<open>num_samples\<close> is an argument: the source computes
  it once, before the loop.
\<close>

fun add_dummy_nodes ::
  "'d arith \<Rightarrow> (nat \<Rightarrow> int \<Rightarrow> int) \<Rightarrow> int \<Rightarrow> nat \<Rightarrow> nat \<Rightarrow> nat \<Rightarrow> 'd TreeType list \<Rightarrow>
   error + 'd TreeType list" where
  "add_dummy_nodes A RandInt num_samples dims 0 k nodes = Inr nodes"
| "add_dummy_nodes A RandInt num_samples dims (Suc m) k nodes =
     (case sum_random_centers A RandInt nodes (nat num_samples) k (replicate dims (d_zero A)) of
        Inl e \<Rightarrow> Inl e
      | Inr (tmp_point, k') \<Rightarrow>
          add_dummy_nodes A RandInt num_samples dims m k'
            (nodes @ [TreeType_new\<lparr>center :=
               map (d_mul A (d_div A (d_one A) (d_of_int A num_samples))) tmp_point\<rparr>]))"

text \<open>
  \<^verbatim>\<open>ReplenishNodes_(top_leaf_nodes)\<close>. It reads \<^verbatim>\<open>top_leaf_nodes[0]\<close> first, and it takes
  the group size from the field that \<^verbatim>\<open>Init\<close> has set, not from a communicator.
\<close>

definition ReplenishNodes' ::
  "'d arith \<Rightarrow> 'd DistributedTable \<Rightarrow> (nat \<Rightarrow> int \<Rightarrow> int) \<Rightarrow> 'd TreeType list \<Rightarrow>
   error + 'd TreeType list" where
  "ReplenishNodes' A t RandInt top_leaf_nodes =
     (case top_leaf_nodes of
        [] \<Rightarrow> Inl OutOfBounds
      | first # _ \<Rightarrow>
          (let dims = length (center first);
               num_additional = table_outbox_group_comm_size' t - int (length top_leaf_nodes);
               num_samples = max 1 (RandInt 0 (int (length top_leaf_nodes)))
           in add_dummy_nodes A RandInt num_samples dims (nat num_additional) 1
                top_leaf_nodes))"

text \<open>The padding step of \<^verbatim>\<open>IndexData\<close>, after the broadcast of the leaf nodes.\<close>

definition pad_top_leaf_nodes ::
  "'d arith \<Rightarrow> 'd DistributedTable \<Rightarrow> communicator \<Rightarrow> (nat \<Rightarrow> int \<Rightarrow> int) \<Rightarrow> 'd TreeType list \<Rightarrow>
   error + 'd TreeType list" where
  "pad_top_leaf_nodes A t comm RandInt top_leaf_nodes =
     (if length top_leaf_nodes < comm_size comm
      then ReplenishNodes' A t RandInt top_leaf_nodes
      else Inr top_leaf_nodes)"

text \<open>
  What the theorems say about the centroids: all centroids of a list have the dimension
  \<open>dims\<close>; the centroids that \<open>n\<close> successive draws, from call number \<open>k\<close> on, select
  from a list; and the vector that the source computes from a list of chosen centroids:
  the sum of doubles, taken from zero in the order of the list, times the double
  \<^verbatim>\<open>1.0 / num_samples\<close>.
\<close>

definition same_dimension :: "nat \<Rightarrow> 'd TreeType list \<Rightarrow> bool" where
  "same_dimension dims nodes \<longleftrightarrow> list_all (\<lambda>n. length (center n) = dims) nodes"

definition drawn_centers ::
  "(nat \<Rightarrow> int \<Rightarrow> int) \<Rightarrow> 'd TreeType list \<Rightarrow> nat \<Rightarrow> nat \<Rightarrow> 'd point list" where
  "drawn_centers RandInt nodes k n =
     map (\<lambda>i. center (nodes ! nat (RandInt (k + i) (int (length nodes))))) [0..<n]"

definition scaled_sum :: "'d arith \<Rightarrow> int \<Rightarrow> nat \<Rightarrow> 'd point list \<Rightarrow> 'd point" where
  "scaled_sum A num_samples dims cs =
     map (d_mul A (d_div A (d_one A) (d_of_int A num_samples)))
       (foldl (\<lambda>acc c. map2 (d_add A) acc c) (replicate dims (d_zero A)) cs)"

text \<open>
  For comparison: the arithmetic of the real numbers, without rounding, and the
  arithmetic mean of a list of real vectors.
\<close>

definition exact_arith :: "real arith" where
  "exact_arith =
     \<lparr>d_zero = 0, d_one = 1, d_max = 2 ^ 1024 - 2 ^ 971,
      d_add = (+), d_mul = (*), d_div = (/), d_less = (<),
      d_of_int = of_int, d_floor_mul = (\<lambda>p n. \<lfloor>p * of_int n\<rfloor>)\<rparr>"

definition mean_vector :: "nat \<Rightarrow> real point list \<Rightarrow> real point" where
  "mean_vector dims cs = map (\<lambda>d. (\<Sum>c\<leftarrow>cs. c ! d) / real (length cs)) [0..<dims]"

text \<open>
  The padding as the specification words it, for comparison: a sample size
  \<open>max(1, random(L))\<close> is drawn for each synthetic leaf.
\<close>

fun add_dummy_nodes_fresh ::
  "'d arith \<Rightarrow> (nat \<Rightarrow> int \<Rightarrow> int) \<Rightarrow> nat \<Rightarrow> nat \<Rightarrow> nat \<Rightarrow> nat \<Rightarrow> 'd TreeType list \<Rightarrow>
   error + 'd TreeType list" where
  "add_dummy_nodes_fresh A RandInt L dims 0 k nodes = Inr nodes"
| "add_dummy_nodes_fresh A RandInt L dims (Suc m) k nodes =
     (let s = max 1 (RandInt k (int L)) in
      case sum_random_centers A RandInt nodes (nat s) (Suc k) (replicate dims (d_zero A)) of
        Inl e \<Rightarrow> Inl e
      | Inr (tmp_point, k') \<Rightarrow>
          add_dummy_nodes_fresh A RandInt L dims m k'
            (nodes @ [TreeType_new\<lparr>center :=
               map (d_mul A (d_div A (d_one A) (d_of_int A s))) tmp_point\<rparr>]))"

definition ReplenishNodes_spec ::
  "'d arith \<Rightarrow> 'd DistributedTable \<Rightarrow> (nat \<Rightarrow> int \<Rightarrow> int) \<Rightarrow> 'd TreeType list \<Rightarrow>
   error + 'd TreeType list" where
  "ReplenishNodes_spec A t RandInt top_leaf_nodes =
     (case top_leaf_nodes of
        [] \<Rightarrow> Inl OutOfBounds
      | first # _ \<Rightarrow>
          add_dummy_nodes_fresh A RandInt (length top_leaf_nodes) (length (center first))
            (nat (table_outbox_group_comm_size' t - int (length top_leaf_nodes))) 0
            top_leaf_nodes)"

text \<open>
  An example: three leaves with the centroids 0, 2 and 4 in a group of five processes,
  and a generator whose first five outcomes are 2, 0, 1, 1 and 2. Every double of the
  example and of its sums and products (0, 1, 2, 3, 4, 6 and 1/2) is represented exactly
  and IEEE arithmetic computes them without rounding, as \<open>exact_arith\<close> does.
\<close>

definition leaves_ex :: "real TreeType list" where
  "leaves_ex =
     [\<lparr>center = [0], node_begin = 0, node_count = 1\<rparr>,
      \<lparr>center = [2], node_begin = 1, node_count = 1\<rparr>,
      \<lparr>center = [4], node_begin = 2, node_count = 1\<rparr>]"

definition RandInt_ex :: "nat \<Rightarrow> int \<Rightarrow> int" where
  "RandInt_ex k n = (if k < 5 then [2, 0, 1, 1, 2] ! k else 0) mod n"

definition group5_ex :: "real DistributedTable" where
  "group5_ex = DistributedTable\<lparr>table_outbox_group_comm_size' := 5\<rparr>"

definition comm5_ex :: communicator where
  "comm5_ex = \<lparr>comm_rank = 0, comm_size = 5\<rparr>"

subsection \<open>Point migration: \<^verbatim>\<open>ReadjustCentroids_\<close>\<close>

text \<open>
  The migration moves the columns of the shards. A column, the doubles of one point, is a
  value of the type \<open>'p\<close>, and a shard is the list of its columns in storage order. The
  model follows the data pointer \<^verbatim>\<open>new_table_ptr\<close> with an offset counted in entries;
  \<^verbatim>\<open>new_table_old_from_new_ptr\<close> advances by the same number of entries at each step.

  The contents of the provenance arrays are not part of the model. The sends hand
  \<^verbatim>\<open>owned_table_->old_from_new()\<close> to the fragment (lines 224 and 233), the local copy
  hands it \<^verbatim>\<open>new_table_old_from_new_ptr\<close>, the array of the new table (line 263), and what
  \<^verbatim>\<open>OffsetDenseMatrix\<close> makes of either is not among the sources. Nothing below says which
  original identifier a migrated column carries.

  What a process does that others can observe is a list of events, in program order.
  \<open>Isend dest tag fragment\<close> is a non-blocking send; \<open>Recv source tag offset fragment\<close>
  is a completed blocking receive, with the offset in the new table at which the
  fragment was written; \<open>SelfCopy offset fragment\<close> is the local \<^verbatim>\<open>Extract\<close>;
  \<open>Send dest tag\<close> and \<open>RecvAnyTag source\<close> are the blocking send and receive of the
  sample aggregation; the other events are collectives and calls of the external
  solvers.
\<close>

datatype 'p event =
    Gather
  | Send nat nat
  | RecvAnyTag nat
  | Barrier
  | Broadcast
  | AllGather
  | AuctionAssign
  | KMeansCompute
  | Isend nat nat "'p list"
  | Recv nat nat nat "'p list"
  | SelfCopy nat "'p list"
  | WaitAll

text \<open>
  Modelled from the spec: \<^verbatim>\<open>core::table::OffsetDenseMatrix\<close> (not among the sources).
  \<^verbatim>\<open>Init(rank, data, old_from_new, point_assignments, dest)\<close> describes the fragment of
  the points of a shard whose destination is \<open>dest\<close>, in storage order; the solver
  returns one destination for each point of the shard. \<open>contribution\<close> is the list of
  the columns of that fragment.
\<close>

definition contribution :: "'p list \<Rightarrow> nat list \<Rightarrow> nat \<Rightarrow> 'p list" where
  "contribution owned point_assignments dest =
     map fst (filter (\<lambda>pa. snd pa = dest) (zip owned point_assignments))"

text \<open>
  The two loops of non-blocking sends. \<open>i\<close> runs from 1 to the size of the contribution
  list; \<open>rank - i\<close> does not fall below 0, since \<open>i \<le> min rank neighbor_radius\<close>.
\<close>

definition left_contributions_size :: "communicator \<Rightarrow> nat" where
  "left_contributions_size comm = min (comm_rank comm) (comm_size comm)"

definition right_contributions_size :: "communicator \<Rightarrow> nat" where
  "right_contributions_size comm =
     min (comm_size comm - comm_rank comm - 1) (comm_size comm)"

definition left_isends :: "communicator \<Rightarrow> 'p list \<Rightarrow> nat list \<Rightarrow> (nat \<times> nat \<times> 'p list) list" where
  "left_isends comm owned point_assignments =
     map (\<lambda>i. (comm_rank comm - i, i,
                contribution owned point_assignments (comm_rank comm - i)))
       [1..<Suc (left_contributions_size comm)]"

definition right_isends :: "communicator \<Rightarrow> 'p list \<Rightarrow> nat list \<Rightarrow> (nat \<times> nat \<times> 'p list) list" where
  "right_isends comm owned point_assignments =
     map (\<lambda>i. (comm_rank comm + i, comm_size comm + i,
                contribution owned point_assignments (comm_rank comm + i)))
       [1..<Suc (right_contributions_size comm)]"

definition isends :: "communicator \<Rightarrow> 'p list \<Rightarrow> nat list \<Rightarrow> (nat \<times> nat \<times> 'p list) list" where
  "isends comm owned point_assignments =
     left_isends comm owned point_assignments @ right_isends comm owned point_assignments"

text \<open>
  The state of the receiving part: the columns of \<^verbatim>\<open>new_local_table\<close> (\<open>None\<close> is a
  column that nothing has been written to), the offset of the two pointers, and the
  events so far.
\<close>

record 'p recv_state =
  new_table :: "'p option list"
  new_table_ptr :: nat
  trace :: "'p event list"

definition write_fragment :: "nat \<Rightarrow> 'p list \<Rightarrow> 'p option list \<Rightarrow> error + 'p option list" where
  "write_fragment off frag buf =
     (if off + length frag \<le> length buf
      then Inr (take off buf @ map Some frag @ drop (off + length frag) buf)
      else Inl OutOfBounds)"

text \<open>
  A loop of blocking receives. \<open>mailbox source tag\<close> is the fragment that \<open>source\<close> has
  sent to this process with \<open>tag\<close>, if there is one; a receive that nothing matches
  never returns.
\<close>

fun recv_loop ::
  "(nat \<Rightarrow> nat \<Rightarrow> 'p list option) \<Rightarrow> (nat \<Rightarrow> nat) \<Rightarrow> (nat \<Rightarrow> nat) \<Rightarrow> nat list \<Rightarrow>
   'p recv_state \<Rightarrow> error + 'p recv_state" where
  "recv_loop mailbox source tag [] st = Inr st"
| "recv_loop mailbox source tag (i # is) st =
     (case mailbox (source i) (tag i) of
        None \<Rightarrow> Inl Deadlock
      | Some frag \<Rightarrow>
          (case write_fragment (new_table_ptr st) frag (new_table st) of
             Inl e \<Rightarrow> Inl e
           | Inr buf \<Rightarrow>
               recv_loop mailbox source tag is
                 \<lparr>new_table = buf,
                  new_table_ptr = new_table_ptr st + length frag,
                  trace = trace st @ [Recv (source i) (tag i) (new_table_ptr st) frag]\<rparr>))"

text \<open>
  The local copy (lines 261 to 267): the columns of the points that stay, read from
  \<^verbatim>\<open>owned_table_->data()\<close> and written at the running offset.
\<close>

definition self_copy :: "communicator \<Rightarrow> 'p list \<Rightarrow> nat list \<Rightarrow> 'p recv_state \<Rightarrow> error + 'p recv_state" where
  "self_copy comm owned point_assignments st =
     (let frag = contribution owned point_assignments (comm_rank comm) in
      case write_fragment (new_table_ptr st) frag (new_table st) of
        Inl e \<Rightarrow> Inl e
      | Inr buf \<Rightarrow>
          Inr \<lparr>new_table = buf,
               new_table_ptr = new_table_ptr st + length frag,
               trace = trace st @ [SelfCopy (new_table_ptr st) frag]\<rparr>)"

text \<open>
  The new table becomes the owned table. A table with a column that was never written
  holds indeterminate points; the model reports it as a failure.
\<close>

definition take_new_table :: "'p recv_state \<Rightarrow> error + 'p event list \<times> 'p list" where
  "take_new_table st =
     (if list_all (\<lambda>c. c \<noteq> None) (new_table st)
      then Inr (trace st @ [WaitAll, WaitAll, Barrier], map the (new_table st))
      else Inl UninitialisedPoints)"

text \<open>
  \<^verbatim>\<open>ReadjustCentroids_\<close> on one process. \<open>kmeans\<close> is what \<^verbatim>\<open>local_kmeans.Compute\<close> returns
  (\<^verbatim>\<open>total_num_points_owned\<close> and \<^verbatim>\<open>point_assignments\<close>); the solver is an external
  collaborator. The result is the trace of the process and its new shard.
\<close>

definition ReadjustCentroids' ::
  "communicator \<Rightarrow> 'p list \<Rightarrow> nat \<times> nat list \<Rightarrow> (nat \<Rightarrow> nat \<Rightarrow> 'p list option) \<Rightarrow>
   error + 'p event list \<times> 'p list" where
  "ReadjustCentroids' comm owned kmeans mailbox =
     (let neighbor_radius = comm_size comm;
          total_num_points_owned = fst kmeans;
          point_assignments = snd kmeans;
          st0 = \<lparr>new_table = replicate total_num_points_owned None,
                 new_table_ptr = 0,
                 trace = KMeansCompute #
                   map (\<lambda>(dest, tag, frag). Isend dest tag frag)
                     (isends comm owned point_assignments)\<rparr>
      in case recv_loop mailbox (\<lambda>i. comm_rank comm - i) (\<lambda>i. neighbor_radius + i)
                [1..<Suc (left_contributions_size comm)] st0 of
           Inl e \<Rightarrow> Inl e
         | Inr st1 \<Rightarrow>
             (case self_copy comm owned point_assignments st1 of
                Inl e \<Rightarrow> Inl e
              | Inr st2 \<Rightarrow>
                  (case recv_loop mailbox (\<lambda>i. comm_rank comm + i) (\<lambda>i. i)
                          [1..<Suc (right_contributions_size comm)] st2 of
                     Inl e \<Rightarrow> Inl e
                   | Inr st3 \<Rightarrow> take_new_table st3)))"

text \<open>
  The group: \<open>P\<close> processes, the shard and the solver's result of each. Every process
  issues all its non-blocking sends before its first receive, so the fragment that a
  receive of \<open>me\<close> from \<open>source\<close> with \<open>tag\<close> obtains is the one that \<open>source\<close> has sent
  to \<open>me\<close> with that tag.
\<close>

definition comm_of :: "nat \<Rightarrow> nat \<Rightarrow> communicator" where
  "comm_of P r = \<lparr>comm_rank = r, comm_size = P\<rparr>"

definition mailbox_of ::
  "nat \<Rightarrow> 'p list list \<Rightarrow> (nat \<times> nat list) list \<Rightarrow> nat \<Rightarrow> nat \<Rightarrow> nat \<Rightarrow> 'p list option" where
  "mailbox_of P shards kmeans me source tag =
     (if source < P
      then map_of
             (map (\<lambda>(dest, tag, frag). ((dest, tag), frag))
                (isends (comm_of P source) (shards ! source) (snd (kmeans ! source))))
             (me, tag)
      else None)"

definition ReadjustCentroids_process ::
  "nat \<Rightarrow> 'p list list \<Rightarrow> (nat \<times> nat list) list \<Rightarrow> nat \<Rightarrow> error + 'p event list \<times> 'p list" where
  "ReadjustCentroids_process P shards kmeans r =
     ReadjustCentroids' (comm_of P r) (shards ! r) (kmeans ! r) (mailbox_of P shards kmeans r)"

text \<open>The results of all processes, or the first failure.\<close>

fun collect :: "(error + 'a) list \<Rightarrow> error + 'a list" where
  "collect [] = Inr []"
| "collect (Inl e # rs) = Inl e"
| "collect (Inr x # rs) = (case collect rs of Inl e \<Rightarrow> Inl e | Inr xs \<Rightarrow> Inr (x # xs))"

definition ReadjustCentroids_group ::
  "nat \<Rightarrow> 'p list list \<Rightarrow> (nat \<times> nat list) list \<Rightarrow> error + ('p event list \<times> 'p list) list" where
  "ReadjustCentroids_group P shards kmeans =
     collect (map (ReadjustCentroids_process P shards kmeans) [0..<P])"

text \<open>
  The solver's results are consistent with the shards and with each other: every
  process has one destination for each of its points, every destination is a rank of the
  group, and the total of each process is the number of points, over all processes,
  whose destination it is.
\<close>

definition solver_consistent :: "nat \<Rightarrow> 'p list list \<Rightarrow> (nat \<times> nat list) list \<Rightarrow> bool" where
  "solver_consistent P shards kmeans \<longleftrightarrow>
     length shards = P \<and> length kmeans = P \<and>
     list_all (\<lambda>q. length (snd (kmeans ! q)) = length (shards ! q) \<and>
                    list_all (\<lambda>d. d < P) (snd (kmeans ! q))) [0..<P] \<and>
     list_all (\<lambda>r. fst (kmeans ! r) = (\<Sum>q\<leftarrow>[0..<P]. count_list (snd (kmeans ! q)) r)) [0..<P]"

text \<open>Reading a trace: the receives and the local copy, in order, and what each wrote.\<close>

fun fills_new_table :: "'p event \<Rightarrow> bool" where
  "fills_new_table (Recv source tag off frag) = True"
| "fills_new_table (SelfCopy off frag) = True"
| "fills_new_table ev = False"

fun fragment_source :: "nat \<Rightarrow> 'p event \<Rightarrow> nat" where
  "fragment_source me (Recv source tag off frag) = source"
| "fragment_source me ev = me"

fun fragment_offset :: "'p event \<Rightarrow> nat" where
  "fragment_offset (Recv source tag off frag) = off"
| "fragment_offset (SelfCopy off frag) = off"
| "fragment_offset ev = 0"

fun fragment_of :: "'p event \<Rightarrow> 'p list" where
  "fragment_of (Recv source tag off frag) = frag"
| "fragment_of (SelfCopy off frag) = frag"
| "fragment_of (Isend dest tag frag) = frag"
| "fragment_of ev = []"

fun running_offsets :: "nat \<Rightarrow> 'a list list \<Rightarrow> nat list" where
  "running_offsets off [] = []"
| "running_offsets off (frag # frags) = off # running_offsets (off + length frag) frags"

fun is_point_to_point :: "'p event \<Rightarrow> bool" where
  "is_point_to_point (Send dest tag) = True"
| "is_point_to_point (RecvAnyTag source) = True"
| "is_point_to_point (Isend dest tag frag) = True"
| "is_point_to_point (Recv source tag off frag) = True"
| "is_point_to_point ev = False"

text \<open>
  The events of a loop of receives that finds every fragment: \<open>frag i\<close> is the fragment
  of iteration \<open>i\<close>, and the offset grows by its length.
\<close>

fun recv_events ::
  "(nat \<Rightarrow> nat) \<Rightarrow> (nat \<Rightarrow> nat) \<Rightarrow> (nat \<Rightarrow> 'p list) \<Rightarrow> nat \<Rightarrow> nat list \<Rightarrow> 'p event list" where
  "recv_events source tag frag off [] = []"
| "recv_events source tag frag off (i # is) =
     Recv (source i) (tag i) off (frag i) #
     recv_events source tag frag (off + length (frag i)) is"

text \<open>
  \<open>fragment_from shards kmeans q r\<close> is the fragment that process \<open>q\<close> holds for process
  \<open>r\<close>, and \<open>arrival_order P r\<close> is the order in which the loops of process \<open>r\<close> fill
  its new table: the left neighbours from the nearest to the farthest, the process
  itself, the right neighbours from the nearest to the farthest.
\<close>

definition fragment_from :: "'p list list \<Rightarrow> (nat \<times> nat list) list \<Rightarrow> nat \<Rightarrow> nat \<Rightarrow> 'p list" where
  "fragment_from shards kmeans q r = contribution (shards ! q) (snd (kmeans ! q)) r"

definition arrival_order :: "nat \<Rightarrow> nat \<Rightarrow> nat list" where
  "arrival_order P r = rev [0..<r] @ [r] @ [Suc r..<P]"

text \<open>
  The trace of process \<open>r\<close> when every receive finds its fragment and the new table has
  room for all of them.
\<close>

definition matched_trace :: "nat \<Rightarrow> 'p list list \<Rightarrow> (nat \<times> nat list) list \<Rightarrow> nat \<Rightarrow> 'p event list" where
  "matched_trace P shards kmeans r =
     KMeansCompute #
     map (\<lambda>(dest, tag, frag). Isend dest tag frag)
       (isends (comm_of P r) (shards ! r) (snd (kmeans ! r))) @
     recv_events (\<lambda>i. r - i) (\<lambda>i. P + i) (\<lambda>i. fragment_from shards kmeans (r - i) r) 0
       [1..<Suc r] @
     [SelfCopy (length (concat (map (\<lambda>q. fragment_from shards kmeans q r) (rev [0..<r]))))
        (fragment_from shards kmeans r r)] @
     recv_events (\<lambda>i. r + i) (\<lambda>i. i) (\<lambda>i. fragment_from shards kmeans (r + i) r)
       (length (concat (map (\<lambda>q. fragment_from shards kmeans q r) (rev [0..<r] @ [r]))))
       [1..<Suc (P - r - 1)] @
     [WaitAll, WaitAll, Barrier]"

subsection \<open>Sampling: \<^verbatim>\<open>SelectSubset_\<close> and \<^verbatim>\<open>CopyPointsIntoTemporaryBuffer_\<close>\<close>

text \<open>
  Modelled from the spec: \<^verbatim>\<open>core::math::RandInt(lo, hi)\<close> (not among the sources) draws a
  number of \<open>[lo, hi)\<close>. As for the draws of the padding, \<open>R k lo hi\<close> is the outcome of
  call number \<open>k\<close> of a run, and \<open>RandIntRange_ok\<close> is the contract of the generator.
\<close>

definition RandIntRange_ok :: "(nat \<Rightarrow> int \<Rightarrow> int \<Rightarrow> int) \<Rightarrow> bool" where
  "RandIntRange_ok R \<longleftrightarrow> (\<forall>k lo hi. lo < hi \<longrightarrow> lo \<le> R k lo hi \<and> R k lo hi < hi)"

text \<open>
  The first loop of \<^verbatim>\<open>SelectSubset_\<close>: iteration \<open>i\<close> draws \<^verbatim>\<open>RandInt(i, indices.size())\<close>
  and swaps \<^verbatim>\<open>indices[i]\<close> with \<^verbatim>\<open>indices[random_index]\<close>. The first numeric argument
  counts the iterations that remain.
\<close>

fun shuffle_prefix ::
  "(nat \<Rightarrow> int \<Rightarrow> int \<Rightarrow> int) \<Rightarrow> nat \<Rightarrow> nat \<Rightarrow> int list \<Rightarrow> error + int list" where
  "shuffle_prefix R 0 i indices = Inr indices"
| "shuffle_prefix R (Suc m) i indices =
     (let random_index = R i (int i) (int (length indices)) in
      if i < length indices \<and> 0 \<le> random_index \<and> random_index < int (length indices)
      then shuffle_prefix R m (Suc i)
             (indices[i := indices ! nat random_index, nat random_index := indices ! i])
      else Inl OutOfBounds)"

text \<open>
  \<^verbatim>\<open>SelectSubset_(sample_probability_in, sampled_indices_out)\<close> on a shard. The number of
  samples is \<^verbatim>\<open>max((int) floor(sample_probability_in * n_entries), 1)\<close>: at least one, also
  when the shard has no entry. The second loop copies the first \<open>num_elements\<close> indices,
  which the first loop has all visited.
\<close>

definition SelectSubset' ::
  "'d arith \<Rightarrow> 'd \<Rightarrow> (nat \<Rightarrow> int \<Rightarrow> int \<Rightarrow> int) \<Rightarrow> 'p list \<Rightarrow> error + int list" where
  "SelectSubset' A sample_probability_in R owned =
     (let indices = map int [0..<length owned];
          num_elements = max (d_floor_mul A sample_probability_in (int (length owned))) 1
      in case shuffle_prefix R (nat num_elements) 0 indices of
           Inl e \<Rightarrow> Inl e
         | Inr shuffled \<Rightarrow> Inr (take (nat num_elements) shuffled))"

text \<open>
  \<^verbatim>\<open>CopyPointsIntoTemporaryBuffer_\<close> reads the column of the shard at each sampled index.
\<close>

fun CopyPointsIntoTemporaryBuffer' :: "'p list \<Rightarrow> int list \<Rightarrow> error + 'p list" where
  "CopyPointsIntoTemporaryBuffer' owned [] = Inr []"
| "CopyPointsIntoTemporaryBuffer' owned (idx # sampled_indices) =
     (if 0 \<le> idx \<and> idx < int (length owned)
      then (case CopyPointsIntoTemporaryBuffer' owned sampled_indices of
              Inl e \<Rightarrow> Inl e
            | Inr tmp_buffer \<Rightarrow> Inr (owned ! nat idx # tmp_buffer))
      else Inl OutOfBounds)"

subsection \<open>Affinity voting: \<^verbatim>\<open>GetLeafNodeMembershipCounts_\<close>\<close>

text \<open>
  The inner loop over the leaf nodes: \<open>best\<close> is the pair of
  \<^verbatim>\<open>min_squared_mid_distance\<close> and \<^verbatim>\<open>min_index\<close>, and \<open>j\<close> is the index of the next leaf.
  \<open>MidDistanceSq leaf point\<close> is what \<^verbatim>\<open>MidDistanceSq\<close> of the bound of the leaf returns for the
  point under the metric (the bound and the metric are not among the sources).
\<close>

fun closest_leaf ::
  "'d arith \<Rightarrow> ('d TreeType \<Rightarrow> 'p \<Rightarrow> 'd) \<Rightarrow> 'p \<Rightarrow> 'd TreeType list \<Rightarrow> nat \<Rightarrow> 'd \<times> int \<Rightarrow> 'd \<times> int" where
  "closest_leaf A MidDistanceSq point [] j best = best"
| "closest_leaf A MidDistanceSq point (leaf # leaves) j best =
     (let squared_mid_distance = MidDistanceSq leaf point in
      if d_less A squared_mid_distance (fst best)
      then closest_leaf A MidDistanceSq point leaves (Suc j) (squared_mid_distance, int j)
      else closest_leaf A MidDistanceSq point leaves (Suc j) best)"

text \<open>
  The loop over the points of the shard. The search starts from the largest double and
  the index \<open>-1\<close>, and the count at \<^verbatim>\<open>min_index\<close> grows by \<^verbatim>\<open>1.0\<close>: when no leaf is
  closer than the largest double, the index is still \<open>-1\<close>.
\<close>

fun count_members ::
  "'d arith \<Rightarrow> ('d TreeType \<Rightarrow> 'p \<Rightarrow> 'd) \<Rightarrow> 'd TreeType list \<Rightarrow> 'p list \<Rightarrow> 'd list \<Rightarrow> error + 'd list" where
  "count_members A MidDistanceSq leaves [] points_assigned_to_node = Inr points_assigned_to_node"
| "count_members A MidDistanceSq leaves (point # points) points_assigned_to_node =
     (let min_index = snd (closest_leaf A MidDistanceSq point leaves 0 (d_max A, - 1)) in
      if 0 \<le> min_index \<and> min_index < int (length points_assigned_to_node)
      then count_members A MidDistanceSq leaves points
             (points_assigned_to_node[nat min_index :=
                d_add A (points_assigned_to_node ! nat min_index) (d_one A)])
      else Inl OutOfBounds)"

definition GetLeafNodeMembershipCounts' ::
  "'d arith \<Rightarrow> ('d TreeType \<Rightarrow> 'p \<Rightarrow> 'd) \<Rightarrow> 'd TreeType list \<Rightarrow> 'p list \<Rightarrow> error + 'd list" where
  "GetLeafNodeMembershipCounts' A MidDistanceSq top_leaf_nodes owned =
     count_members A MidDistanceSq top_leaf_nodes owned
       (replicate (length top_leaf_nodes) (d_zero A))"

subsection \<open>\<^verbatim>\<open>TakeLeafNodeOwnerShip_\<close> and \<^verbatim>\<open>IndexData\<close>\<close>

text \<open>
  \<^verbatim>\<open>TakeLeafNodeOwnerShip_\<close>: the events of the call and the index returned. \<open>assigned\<close> is
  what \<^verbatim>\<open>auction.Assign\<close> would return; the auction is an external collaborator.
\<close>

definition TakeLeafNodeOwnerShip' :: "communicator \<Rightarrow> int \<Rightarrow> 'p event list \<times> int" where
  "TakeLeafNodeOwnerShip' comm assigned =
     (if comm_size comm > 1 then ([AuctionAssign], assigned) else ([], 0))"

text \<open>
  The sample aggregation of \<^verbatim>\<open>IndexData\<close>: a gather of the sample sizes, then rank 0
  receives the sample of each other rank and each other rank sends its sample to rank 0
  with its rank as the tag, then a barrier. Rank 0 receives into a table that it has
  sized with the gathered counts.
\<close>

definition sample_aggregation :: "communicator \<Rightarrow> 'p event list" where
  "sample_aggregation comm =
     Gather #
     (if comm_rank comm = 0 then map RecvAnyTag [1..<comm_size comm]
      else [Send 0 (comm_rank comm)]) @
     [Barrier]"

text \<open>
  What \<^verbatim>\<open>IndexData\<close> obtains from outside \<^verbatim>\<open>distributed_table.h\<close>: the arithmetic of the
  doubles, the sample probability, the random draws of each rank, the leaf nodes that
  rank 0 broadcasts (the leaves of the tree over the aggregated sample), the distance
  between the bound of a leaf and a point, the index that the auction assigns to each
  rank, and the local tree build, which reorders the storage of a shard. The results of
  the clustering solver are a separate argument, as for \<open>ReadjustCentroids_group\<close>.
\<close>

record 'd environment =
  env_arith :: "'d arith"
  env_sample_probability :: 'd
  env_RandIntRange :: "nat \<Rightarrow> nat \<Rightarrow> int \<Rightarrow> int \<Rightarrow> int"
  env_RandInt :: "nat \<Rightarrow> nat \<Rightarrow> int \<Rightarrow> int"
  env_broadcast_leaves :: "'d TreeType list"
  env_MidDistanceSq :: "'d TreeType \<Rightarrow> 'd point \<Rightarrow> 'd"
  env_Assign :: "nat \<Rightarrow> int"
  env_build :: "'d point list \<Rightarrow> 'd point list"

text \<open>
  The shard of a distributed table: \<^verbatim>\<open>IndexData\<close> dereferences \<^verbatim>\<open>owned_table_\<close>, which is
  \<^verbatim>\<open>NULL\<close> before \<^verbatim>\<open>Init\<close>. \<open>columns_of\<close> is what a peer can send.
\<close>

definition owned_data :: "'d DistributedTable \<Rightarrow> error + 'd point list" where
  "owned_data t =
     (case owned_table' t of None \<Rightarrow> Inl NullDereference | Some tbl \<Rightarrow> Inr (data tbl))"

definition columns_of :: "'d DistributedTable \<Rightarrow> 'd point list" where
  "columns_of t = (case owned_table' t of None \<Rightarrow> [] | Some tbl \<Rightarrow> data tbl)"

text \<open>
  \<^verbatim>\<open>IndexData\<close> on process \<open>r\<close> of a group of \<open>P\<close> processes whose distributed tables are
  \<open>ts\<close>, step by step: \<^verbatim>\<open>SelectSubset_\<close>, the copy into the temporary buffer, the sample
  aggregation, the broadcast of the leaf nodes, the padding,
  \<^verbatim>\<open>GetLeafNodeMembershipCounts_\<close>, \<^verbatim>\<open>TakeLeafNodeOwnerShip_\<close>, the read of
  \<^verbatim>\<open>top_leaf_nodes[leaf_node_assignment_index]\<close> and the rest of \<^verbatim>\<open>ReadjustCentroids_\<close>,
  the local tree build and the two final all-gathers. The result is the trace of the
  process and the columns of its new shard.
\<close>

definition IndexData_process ::
  "'d environment \<Rightarrow> nat \<Rightarrow> 'd DistributedTable list \<Rightarrow> (nat \<times> nat list) list \<Rightarrow> nat \<Rightarrow>
   error + 'd point event list \<times> 'd point list" where
  "IndexData_process E P ts kmeans r =
     (let comm = comm_of P r; A = env_arith E in
      case owned_data (ts ! r) of
        Inl e \<Rightarrow> Inl e
      | Inr owned \<Rightarrow>
      (case SelectSubset' A (env_sample_probability E) (env_RandIntRange E r) owned of
        Inl e \<Rightarrow> Inl e
      | Inr sampled_indices \<Rightarrow>
      (case CopyPointsIntoTemporaryBuffer' owned sampled_indices of
        Inl e \<Rightarrow> Inl e
      | Inr tmp_buffer \<Rightarrow>
      (case pad_top_leaf_nodes A (ts ! r) comm (env_RandInt E r) (env_broadcast_leaves E) of
        Inl e \<Rightarrow> Inl e
      | Inr top_leaf_nodes \<Rightarrow>
      (case GetLeafNodeMembershipCounts' A (env_MidDistanceSq E) top_leaf_nodes owned of
        Inl e \<Rightarrow> Inl e
      | Inr num_points_assigned_to_leaf_nodes \<Rightarrow>
      (let leaf_node_assignment_index = snd (TakeLeafNodeOwnerShip' comm (env_Assign E r)
                                               :: 'd point event list \<times> int) in
       if 0 \<le> leaf_node_assignment_index
          \<and> leaf_node_assignment_index < int (length top_leaf_nodes)
       then
         (case ReadjustCentroids_process P (map columns_of ts) kmeans r of
            Inl e \<Rightarrow> Inl e
          | Inr (tr, new_local_table) \<Rightarrow>
              Inr (sample_aggregation comm @ [Broadcast] @
                   fst (TakeLeafNodeOwnerShip' comm (env_Assign E r)) @
                   tr @ [AllGather, AllGather],
                   env_build E new_local_table))
       else Inl OutOfBounds))))))"

definition IndexData_group ::
  "'d environment \<Rightarrow> nat \<Rightarrow> 'd DistributedTable list \<Rightarrow> (nat \<times> nat list) list \<Rightarrow>
   error + ('d point event list \<times> 'd point list) list" where
  "IndexData_group E P ts kmeans = collect (map (IndexData_process E P ts kmeans) [0..<P])"

text \<open>
  The contracts of the collaborators, for a group whose shards are \<open>shards\<close>: the
  generators draw within their bounds; the sample probability is one of \<open>(0, 1]\<close>, so
  that \<^verbatim>\<open>floor(p * n)\<close> does not exceed \<open>n\<close>; rank 0 broadcasts at least one leaf (its tree
  has one), all centroids have one dimension, and every table was initialised in this
  group; the distance from any point of a shard to the first leaf is below the largest
  double; the auction returns the index of a candidate leaf, of which there are
  \<open>max P L\<close> after the padding; and the local build keeps the number of points.
\<close>

definition environment_ok ::
  "'d environment \<Rightarrow> nat \<Rightarrow> 'd DistributedTable list \<Rightarrow> 'd point list list \<Rightarrow> bool" where
  "environment_ok E P ts shards \<longleftrightarrow>
     (\<forall>r. RandIntRange_ok (env_RandIntRange E r)) \<and>
     (\<forall>r. RandInt_ok (env_RandInt E r)) \<and>
     (\<forall>s\<in>set shards.
        d_floor_mul (env_arith E) (env_sample_probability E) (int (length s)) \<le> int (length s)) \<and>
     env_broadcast_leaves E \<noteq> [] \<and>
     (\<exists>dims. same_dimension dims (env_broadcast_leaves E)) \<and>
     (\<forall>t\<in>set ts. table_outbox_group_comm_size' t = int P) \<and>
     (\<forall>s\<in>set shards. \<forall>point\<in>set s.
        d_less (env_arith E)
          (env_MidDistanceSq E (hd (env_broadcast_leaves E)) point) (d_max (env_arith E))) \<and>
     (\<forall>r<P. 0 \<le> env_Assign E r \<and>
            env_Assign E r < int (max P (length (env_broadcast_leaves E)))) \<and>
     (\<forall>xs. length (env_build E xs) = length xs)"

text \<open>
  An example group: three tables that \<^verbatim>\<open>Init\<close> has loaded, with two, two and three points
  of one coordinate, two broadcast leaves, the sample probability 1/2 and generators
  that always draw their lower bound.
\<close>

definition loaded_ex :: "real point list \<Rightarrow> real DistributedTable" where
  "loaded_ex columns =
     Init \<lparr>data = columns, old_from_new = map int [0..<length columns], tree = None\<rparr>
       \<lparr>comm_rank = 0, comm_size = 3\<rparr> (\<lambda>r. 0) DistributedTable"

definition points_ex :: "real point list list" where
  "points_ex = [[[10], [11]], [[20], [21]], [[30], [31], [32]]]"

definition tables_ex :: "real DistributedTable list" where
  "tables_ex = map loaded_ex points_ex"

definition env_ex :: "real environment" where
  "env_ex =
     \<lparr>env_arith = exact_arith,
      env_sample_probability = 1 / 2,
      env_RandIntRange = (\<lambda>r k lo hi. lo),
      env_RandInt = (\<lambda>r k n. 0),
      env_broadcast_leaves =
        [\<lparr>center = [15], node_begin = 0, node_count = 2\<rparr>,
         \<lparr>center = [30], node_begin = 2, node_count = 1\<rparr>],
      env_MidDistanceSq = (\<lambda>leaf point. (hd (center leaf) - hd point) * (hd (center leaf) - hd point)),
      env_Assign = int,
      env_build = rev\<rparr>"

text \<open>
  A group of one process whose table holds no point, and a group of two processes in
  which rank 0 holds no point and rank 1 holds one.
\<close>

definition single_empty_ex :: "real DistributedTable list" where
  "single_empty_ex =
     [Init \<lparr>data = [], old_from_new = [], tree = None\<rparr>
        \<lparr>comm_rank = 0, comm_size = 1\<rparr> (\<lambda>r. 0) DistributedTable]"

definition pair_empty_ex :: "real DistributedTable list" where
  "pair_empty_ex =
     [Init \<lparr>data = [], old_from_new = [], tree = None\<rparr>
        \<lparr>comm_rank = 0, comm_size = 2\<rparr> (\<lambda>r. 1) DistributedTable,
      Init \<lparr>data = [[5]], old_from_new = [0], tree = None\<rparr>
        \<lparr>comm_rank = 1, comm_size = 2\<rparr> (\<lambda>r. 0) DistributedTable]"

text \<open>
  The results of the solver for the group of two: rank 0 owns nothing and keeps nothing,
  rank 1 keeps its point.
\<close>

definition pair_kmeans_ex :: "(nat \<times> nat list) list" where
  "pair_kmeans_ex = [(0, []), (1, [1])]"

text \<open>
  An example: three processes. Rank 0 holds the points 10 and 11, rank 1 holds 20 and 21,
  rank 2 holds 30, 31 and 32; the solver sends 10 and 31 to rank 0, 21 and 32 to rank 1,
  and 11, 20 and 30 to rank 2.
\<close>

definition shards_ex :: "nat list list" where
  "shards_ex = [[10, 11], [20, 21], [30, 31, 32]]"

definition kmeans_ex :: "(nat \<times> nat list) list" where
  "kmeans_ex = [(2, [0, 2]), (2, [2, 1]), (3, [2, 0, 1])]"

section \<open>Theorems\<close>

subsection \<open>The entry-count directory\<close>

lemma local_n_entries_Init_upper:
  "int (comm_size comm) \<le> r \<Longrightarrow>
   local_n_entries (Init loaded comm peers t) r = Inr (- 1, Some (r, int (comm_size comm)))"
  by (simp add: local_n_entries_def Init_def)

lemma local_n_entries_Init_in_range:
  "0 \<le> r \<Longrightarrow> r < int (comm_size comm) \<Longrightarrow>
   local_n_entries (Init loaded comm peers t) r =
     Inr (all_gather comm (n_entries loaded) peers ! nat r, None)"
  by (simp add: local_n_entries_def Init_def all_gather_def)

text \<open>
  C8. The claim is that no call of \<^verbatim>\<open>local_n_entries\<close> reads outside the directory, for
  any integer argument. The guard tests the upper bound only. On a table initialised
  in a group of two processes (five and seven points), the query for rank \<open>-1\<close> passes
  the guard and reads the directory at index \<open>-1\<close>, before its first element.
\<close>

theorem local_n_entries_negative_rank_out_of_bounds:
  "local_n_entries
     (Init \<lparr>data = [[1], [2], [3], [4], [5]], old_from_new = [0, 1, 2, 3, 4], tree = None\<rparr>
        \<lparr>comm_rank = 0, comm_size = 2\<rparr> (\<lambda>r. 7) DistributedTable) (- 1)
   = Inl OutOfBounds"
  by (simp add: local_n_entries_def Init_def all_gather_def)

subsection \<open>\<^verbatim>\<open>IsIndexed\<close> before \<^verbatim>\<open>IndexData\<close>\<close>

text \<open>
  C9. The claim is that \<^verbatim>\<open>IsIndexed()\<close> returns false on a table that has been
  initialised and never indexed. The constructor sets \<^verbatim>\<open>global_table_\<close> to \<^verbatim>\<open>NULL\<close> and
  \<^verbatim>\<open>Init\<close> does not assign it, so on every such table the call dereferences \<^verbatim>\<open>NULL\<close>.
\<close>

theorem IsIndexed_after_Init_null_dereference:
  "IsIndexed (Init loaded comm peers DistributedTable) = Inl NullDereference"
  by (simp add: IsIndexed_def Init_def DistributedTable_def)

subsection \<open>The cursor\<close>

lemmas cursor_defs =
  Next_def get_id_def RandomPick_id_def iterator_get'_def iterator_get_id'_def
  IsIndexed_def MakeColumnVector_def Extract_def

lemmas example_defs =
  table_ex_def shard_ex_def summary_ex_def cursor_ex_def get_node_iterator_range_def
  Random_lo_def

text \<open>
  C2, as stated, fails. The claim is that \<^verbatim>\<open>Next(point, id)\<close> returns the feature vector at
  the next storage position of the shard, and the identifier that the shard's own
  permutation gives for it. \<^verbatim>\<open>iterator_get_\<close> and \<^verbatim>\<open>iterator_get_id_\<close> read
  \<^verbatim>\<open>global_table_\<close>, never \<^verbatim>\<open>owned_table_\<close>. In the example state the first call on a
  cursor over the positions 0 and 1 returns the centroid \<open>[7 / 2]\<close> with identifier 1,
  where the shard holds the point \<open>[1]\<close> with identifier 0 at position 0.
\<close>

theorem Next_shard_counterexample:
  "Next cursor_ex table_ex = Inr (cursor_ex\<lparr>current_index' := 0\<rparr>, [7 / 2], 1)
   \<and> owned_table' table_ex = Some shard_ex
   \<and> data shard_ex ! 0 = [1] \<and> old_from_new shard_ex ! 0 = 0
   \<and> Next cursor_ex table_ex \<noteq> Inr (cursor_ex\<lparr>current_index' := 0\<rparr>, [1], 0)"
  by (simp add: cursor_defs example_defs)

text \<open>
  C2, amended. Let the distributed table that the cursor references have a global table
  \<open>g\<close>, and let the position after the cursor be a column of \<open>g\<close> (and, when \<open>g\<close> has a
  tree, a position of its permutation array). Then \<^verbatim>\<open>Next(point, id)\<close> advances the
  cursor by exactly one position and returns the column of \<open>g\<close> at the new position,
  together with the new position itself when \<open>g\<close> has no tree, and with the entry of
  \<^verbatim>\<open>old_from_new\<close> of \<open>g\<close> at the new position when it has one.
\<close>

theorem Next_reads_global_table:
  assumes "global_table' t = Some g"
    and "0 \<le> current_index' c + 1"
    and "current_index' c + 1 < int (length (data g))"
    and "tree g \<noteq> None \<longrightarrow> current_index' c + 1 < int (length (old_from_new g))"
  shows "Next c t =
     Inr (c\<lparr>current_index' := current_index' c + 1\<rparr>,
          data g ! nat (current_index' c + 1),
          if tree g = None then current_index' c + 1
          else old_from_new g ! nat (current_index' c + 1))"
  using assms by (auto simp add: cursor_defs Let_def)

theorem Next_reads_global_table_witness:
  "global_table' table_ex = Some summary_ex
   \<and> 0 \<le> current_index' cursor_ex + 1
   \<and> current_index' cursor_ex + 1 < int (length (data summary_ex))
   \<and> tree summary_ex \<noteq> None
   \<and> current_index' cursor_ex + 1 < int (length (old_from_new summary_ex))
   \<and> Next cursor_ex table_ex = Inr (cursor_ex\<lparr>current_index' := 0\<rparr>, [7 / 2], 1)"
  using Next_reads_global_table [of table_ex summary_ex cursor_ex]
  by (simp add: example_defs)

text \<open>
  C10. Let \<open>r\<close> be the number that \<^verbatim>\<open>Random(begin_, end_)\<close> draws, a column of the global
  table \<open>g\<close>. \<^verbatim>\<open>RandomPick(point, id)\<close> returns the column at \<open>r\<close> and stores \<open>r\<close> itself as
  the identifier, whether \<open>g\<close> has a tree or not. When \<open>g\<close> has a tree, \<^verbatim>\<open>get_id\<close> and
  \<^verbatim>\<open>Next(point, id)\<close> at the same position return the entry of \<^verbatim>\<open>old_from_new\<close> instead.
\<close>

theorem RandomPick_id_is_position:
  assumes "global_table' t = Some g"
    and "r = Random (begin' c) (end' c)"
    and "0 \<le> r" and "r < int (length (data g))"
  shows "RandomPick_id c t Random = Inr (data g ! nat r, r)
    \<and> (tree g \<noteq> None \<and> r < int (length (old_from_new g)) \<longrightarrow>
         get_id c t (r - begin' c) = Inr (old_from_new g ! nat r)
       \<and> Next (c\<lparr>current_index' := r - 1\<rparr>) t =
           Inr (c\<lparr>current_index' := r\<rparr>, data g ! nat r, old_from_new g ! nat r))"
  using assms by (auto simp add: cursor_defs Let_def)

theorem RandomPick_id_is_position_witness:
  "global_table' table_ex = Some summary_ex
   \<and> Random_lo (begin' cursor_ex) (end' cursor_ex) = 0
   \<and> (0::int) < int (length (data summary_ex))
   \<and> tree summary_ex \<noteq> None
   \<and> (0::int) < int (length (old_from_new summary_ex))
   \<and> RandomPick_id cursor_ex table_ex Random_lo = Inr ([7 / 2], 0)
   \<and> get_id cursor_ex table_ex 0 = Inr 1
   \<and> Next (cursor_ex\<lparr>current_index' := - 1\<rparr>) table_ex =
        Inr (cursor_ex\<lparr>current_index' := 0\<rparr>, [7 / 2], 1)"
  using RandomPick_id_is_position [of table_ex summary_ex 0 Random_lo cursor_ex]
  by (simp add: example_defs)

subsection \<open>Leaf-set padding\<close>

lemma length_foldl_map2:
  "length acc = dims \<Longrightarrow> \<forall>c\<in>set cs. length c = dims \<Longrightarrow>
   length (foldl (\<lambda>acc c. map2 f acc c) acc cs) = dims"
  by (induction cs arbitrary: acc) simp_all

lemma drawn_centers_Suc:
  "drawn_centers RandInt nodes k (Suc n) =
     center (nodes ! nat (RandInt k (int (length nodes)))) # drawn_centers RandInt nodes (Suc k) n"
  by (simp add: drawn_centers_def upt_conv_Cons map_Suc_upt [symmetric] del: upt_Suc)

lemma length_drawn_centers: "length (drawn_centers RandInt nodes k n) = n"
  by (simp add: drawn_centers_def)

lemma drawn_centers_dims:
  assumes "RandInt_ok RandInt" "nodes \<noteq> []" "same_dimension dims nodes"
  shows "\<forall>c\<in>set (drawn_centers RandInt nodes k n). length c = dims"
proof -
  have "\<And>i. length (center (nodes ! nat (RandInt (k + i) (int (length nodes))))) = dims"
  proof -
    fix i
    let ?idx = "RandInt (k + i) (int (length nodes))"
    have "0 \<le> ?idx" "?idx < int (length nodes)"
      using assms(1,2) by (simp_all add: RandInt_ok_def)
    then have "nodes ! nat ?idx \<in> set nodes" by simp
    then show "length (center (nodes ! nat ?idx)) = dims"
      using assms(3) by (simp add: same_dimension_def list_all_iff)
  qed
  then show ?thesis by (simp add: drawn_centers_def)
qed

lemma sum_random_centers_ok:
  assumes "RandInt_ok RandInt" "nodes \<noteq> []" "same_dimension dims nodes" "length acc = dims"
  shows "sum_random_centers A RandInt nodes n k acc =
     Inr (foldl (\<lambda>acc c. map2 (d_add A) acc c) acc (drawn_centers RandInt nodes k n), k + n)"
  using assms
proof (induction n arbitrary: k acc)
  case 0
  then show ?case by (simp add: drawn_centers_def)
next
  case (Suc n)
  let ?idx = "RandInt k (int (length nodes))"
  have r: "0 \<le> ?idx" "?idx < int (length nodes)"
    using Suc.prems(1,2) by (simp_all add: RandInt_ok_def)
  then have mem: "nodes ! nat ?idx \<in> set nodes" by simp
  then have len: "length (center (nodes ! nat ?idx)) = dims"
    using Suc.prems(3) by (simp add: same_dimension_def list_all_iff)
  have step: "sum_random_centers A RandInt nodes (Suc n) k acc =
      sum_random_centers A RandInt nodes n (Suc k) (map2 (d_add A) acc (center (nodes ! nat ?idx)))"
    using r len Suc.prems(4) by (simp add: Let_def)
  have len2: "length (map2 (d_add A) acc (center (nodes ! nat ?idx))) = dims"
    using len Suc.prems(4) by simp
  show ?case
    unfolding step Suc.IH [OF Suc.prems(1,2,3) len2] drawn_centers_Suc by simp
qed

lemma add_dummy_nodes_ok:
  assumes "RandInt_ok RandInt" "nodes \<noteq> []" "same_dimension dims nodes" "0 < s"
  shows "\<exists>new. add_dummy_nodes A RandInt s dims m k nodes = Inr (nodes @ new) \<and> length new = m \<and>
     (\<forall>j<m. new ! j = TreeType_new\<lparr>center :=
         scaled_sum A s dims (drawn_centers RandInt (nodes @ take j new) (k + j * nat s) (nat s))\<rparr>)"
  using assms
proof (induction m arbitrary: k nodes)
  case 0
  then show ?case by simp
next
  case (Suc m)
  let ?n0 = "TreeType_new\<lparr>center := scaled_sum A s dims (drawn_centers RandInt nodes k (nat s))\<rparr>"
  have inner: "sum_random_centers A RandInt nodes (nat s) k (replicate dims (d_zero A)) =
      Inr (foldl (\<lambda>acc c. map2 (d_add A) acc c) (replicate dims (d_zero A))
             (drawn_centers RandInt nodes k (nat s)), k + nat s)"
    by (rule sum_random_centers_ok [OF Suc.prems(1,2,3)]) simp
  have step: "add_dummy_nodes A RandInt s dims (Suc m) k nodes =
      add_dummy_nodes A RandInt s dims m (k + nat s) (nodes @ [?n0])"
    by (simp add: inner scaled_sum_def)
  have "length (scaled_sum A s dims (drawn_centers RandInt nodes k (nat s))) = dims"
    unfolding scaled_sum_def length_map
    by (rule length_foldl_map2) (simp_all add: drawn_centers_dims [OF Suc.prems(1,2,3)])
  then have sd: "same_dimension dims (nodes @ [?n0])"
    using Suc.prems(3) by (simp add: same_dimension_def)
  have ne: "nodes @ [?n0] \<noteq> []" by simp
  from Suc.IH [OF Suc.prems(1) ne sd Suc.prems(4), of "k + nat s"]
  obtain new where new:
      "add_dummy_nodes A RandInt s dims m (k + nat s) (nodes @ [?n0]) = Inr ((nodes @ [?n0]) @ new)"
      "length new = m"
      "\<forall>j<m. new ! j = TreeType_new\<lparr>center :=
         scaled_sum A s dims
           (drawn_centers RandInt ((nodes @ [?n0]) @ take j new) (k + nat s + j * nat s) (nat s))\<rparr>"
    by blast
  have "\<forall>j<Suc m. (?n0 # new) ! j = TreeType_new\<lparr>center :=
         scaled_sum A s dims
           (drawn_centers RandInt (nodes @ take j (?n0 # new)) (k + j * nat s) (nat s))\<rparr>"
  proof (intro allI impI)
    fix j assume j: "j < Suc m"
    show "(?n0 # new) ! j = TreeType_new\<lparr>center :=
         scaled_sum A s dims
           (drawn_centers RandInt (nodes @ take j (?n0 # new)) (k + j * nat s) (nat s))\<rparr>"
    proof (cases j)
      case 0
      then show ?thesis by simp
    next
      case (Suc j')
      then have "j' < m" using j by simp
      with new(3) have "new ! j' = TreeType_new\<lparr>center :=
         scaled_sum A s dims
           (drawn_centers RandInt ((nodes @ [?n0]) @ take j' new) (k + nat s + j' * nat s) (nat s))\<rparr>"
        by blast
      then show ?thesis using Suc by (simp add: add.assoc add.commute)
    qed
  qed
  then show ?case
    using new(1,2) step by (intro exI [of _ "?n0 # new"]) simp
qed

lemma RandInt_ok_ex: "RandInt_ok RandInt_ex"
  by (simp add: RandInt_ok_def RandInt_ex_def)

lemma same_dimension_hd:
  "same_dimension dims (first # rest) \<Longrightarrow> length (center first) = dims"
  by (simp add: same_dimension_def)

text \<open>
  On an empty list \<^verbatim>\<open>ReplenishNodes_\<close> reads \<^verbatim>\<open>top_leaf_nodes[0]\<close>, outside the list. The
  list that \<^verbatim>\<open>IndexData\<close> passes is the broadcast list of the leaves of the tree that rank
  0 has built over at least one sampled point, and such a tree has a leaf.
\<close>

lemma ReplenishNodes_empty: "ReplenishNodes' A t RandInt [] = Inl OutOfBounds"
  by (simp add: ReplenishNodes'_def)

lemmas padding_ex_defs =
  group5_ex_def comm5_ex_def leaves_ex_def RandInt_ex_def DistributedTable_def
  TreeType_new_def same_dimension_def exact_arith_def

text \<open>
  Without rounding, the vector that the source computes is the arithmetic mean of the
  chosen centroids.
\<close>

lemma foldl_add_exact:
  fixes acc :: "real list"
  assumes "length acc = dims" "\<forall>c\<in>set cs. length c = dims"
  shows "foldl (\<lambda>acc c. map2 (+) acc c) acc cs =
     map (\<lambda>d. acc ! d + (\<Sum>c\<leftarrow>cs. c ! d)) [0..<dims]"
  using assms
proof (induction cs arbitrary: acc)
  case Nil
  then show ?case by (auto intro: nth_equalityI)
next
  case (Cons c cs)
  have "length (map2 (+) acc c) = dims" using Cons.prems by simp
  from Cons.IH [OF this] Cons.prems
  show ?case by (auto simp add: algebra_simps)
qed

lemma scaled_sum_exact:
  assumes "0 < s" "length cs = nat s" "\<forall>c\<in>set cs. length c = dims"
  shows "scaled_sum exact_arith s dims cs = mean_vector dims cs"
proof -
  have "foldl (\<lambda>acc c. map2 (+) acc c) (replicate dims 0) cs =
      map (\<lambda>d. replicate dims 0 ! d + (\<Sum>c\<leftarrow>cs. c ! d)) [0..<dims]"
    by (rule foldl_add_exact) (simp_all add: assms(3))
  then show ?thesis
    using assms(1,2) by (simp add: scaled_sum_def exact_arith_def mean_vector_def)
qed

text \<open>
  C5. Let the table have been initialised in the group of the communicator (so that the
  recorded group size is \<open>P\<close>), let the broadcast list hold at least one leaf (it is
  the list of leaves of the tree that rank 0 has built), with centroids of one
  dimension, and let the generator keep its contract. If the list holds \<open>L < P\<close> leaves,
  the padding step appends exactly \<open>P - L\<close> leaves and the list then holds exactly \<open>P\<close>;
  if \<open>L \<ge> P\<close>, the step returns the list as it is. This holds for every arithmetic of
  the doubles.
\<close>

theorem padding_reaches_group_size:
  assumes "table_outbox_group_comm_size' t = int (comm_size comm)"
    and "RandInt_ok RandInt"
    and "top_leaf_nodes \<noteq> []"
    and "same_dimension dims top_leaf_nodes"
  shows "(length top_leaf_nodes < comm_size comm \<longrightarrow>
          (\<exists>new. pad_top_leaf_nodes A t comm RandInt top_leaf_nodes = Inr (top_leaf_nodes @ new)
               \<and> length new = comm_size comm - length top_leaf_nodes
               \<and> length (top_leaf_nodes @ new) = comm_size comm))
       \<and> (comm_size comm \<le> length top_leaf_nodes \<longrightarrow>
            pad_top_leaf_nodes A t comm RandInt top_leaf_nodes = Inr top_leaf_nodes)"
proof (intro conjI impI)
  assume less: "length top_leaf_nodes < comm_size comm"
  obtain first rest where fr: "top_leaf_nodes = first # rest"
    using assms(3) by (cases top_leaf_nodes) auto
  let ?s = "max 1 (RandInt 0 (int (length top_leaf_nodes)))"
  have s: "0 < ?s" by simp
  from add_dummy_nodes_ok [OF assms(2,3,4) s,
      of A "nat (table_outbox_group_comm_size' t - int (length top_leaf_nodes))" 1]
  obtain new where new:
    "add_dummy_nodes A RandInt ?s dims
       (nat (table_outbox_group_comm_size' t - int (length top_leaf_nodes))) 1 top_leaf_nodes
     = Inr (top_leaf_nodes @ new)"
    "length new = nat (table_outbox_group_comm_size' t - int (length top_leaf_nodes))"
    by blast
  have d: "length (center first) = dims"
    using assms(4) fr by (simp add: same_dimension_hd)
  have run: "pad_top_leaf_nodes A t comm RandInt top_leaf_nodes = Inr (top_leaf_nodes @ new)"
    using less new(1) d fr by (simp add: pad_top_leaf_nodes_def ReplenishNodes'_def Let_def)
  have len: "length new = comm_size comm - length top_leaf_nodes"
    using new(2) assms(1) less by simp
  show "\<exists>new. pad_top_leaf_nodes A t comm RandInt top_leaf_nodes = Inr (top_leaf_nodes @ new)
               \<and> length new = comm_size comm - length top_leaf_nodes
               \<and> length (top_leaf_nodes @ new) = comm_size comm"
    using run len less by (intro exI [of _ new]) simp
next
  assume "comm_size comm \<le> length top_leaf_nodes"
  then show "pad_top_leaf_nodes A t comm RandInt top_leaf_nodes = Inr top_leaf_nodes"
    by (simp add: pad_top_leaf_nodes_def)
qed

theorem padding_reaches_group_size_witness:
  "table_outbox_group_comm_size' group5_ex = int (comm_size comm5_ex)
   \<and> RandInt_ok RandInt_ex \<and> leaves_ex \<noteq> [] \<and> same_dimension 1 leaves_ex
   \<and> length leaves_ex < comm_size comm5_ex
   \<and> (\<exists>new. pad_top_leaf_nodes exact_arith group5_ex comm5_ex RandInt_ex leaves_ex
              = Inr (leaves_ex @ new)
          \<and> length new = comm_size comm5_ex - length leaves_ex
          \<and> length (leaves_ex @ new) = comm_size comm5_ex)"
proof -
  have h1: "table_outbox_group_comm_size' group5_ex = int (comm_size comm5_ex)"
    by (simp add: padding_ex_defs)
  have h3: "leaves_ex \<noteq> []" by (simp add: leaves_ex_def)
  have h4: "same_dimension 1 leaves_ex" by (simp add: padding_ex_defs)
  have less: "length leaves_ex < comm_size comm5_ex" by (simp add: padding_ex_defs)
  show ?thesis
    using padding_reaches_group_size [OF h1 RandInt_ok_ex h3 h4, of exact_arith]
      h1 RandInt_ok_ex h3 h4 less
    by blast
qed

text \<open>
  C6, as stated, fails. The claim is that a fresh sample size is drawn for each synthetic
  leaf. The source draws \<^verbatim>\<open>num_samples\<close> once, before the loop over the synthetic leaves.
  In the example the first draw is 2, so both synthetic leaves average two centroids:
  the second is \<open>[3]\<close>, the mean of \<open>[2]\<close> and \<open>[4]\<close>. With a sample size drawn for each
  leaf, the second leaf would draw the size 1 and be the single centroid \<open>[4]\<close>.
\<close>

theorem ReplenishNodes_fresh_sample_size_counterexample:
  "ReplenishNodes' exact_arith group5_ex RandInt_ex leaves_ex =
     Inr (leaves_ex @ [TreeType_new\<lparr>center := [1]\<rparr>, TreeType_new\<lparr>center := [3]\<rparr>])
   \<and> ReplenishNodes_spec exact_arith group5_ex RandInt_ex leaves_ex =
     Inr (leaves_ex @ [TreeType_new\<lparr>center := [1]\<rparr>, TreeType_new\<lparr>center := [4]\<rparr>])
   \<and> ReplenishNodes' exact_arith group5_ex RandInt_ex leaves_ex
       \<noteq> ReplenishNodes_spec exact_arith group5_ex RandInt_ex leaves_ex"
  by (simp add: ReplenishNodes'_def ReplenishNodes_spec_def padding_ex_defs eval_nat_numeral)

text \<open>
  C6, amended. One sample size \<open>s = max(1, random(L))\<close> is drawn, by the first call of the
  generator, and all synthetic leaves share it. For the synthetic leaf number \<open>j\<close>, the
  next \<open>s\<close> draws each choose a leaf of the list as it stands then (the \<open>L\<close> broadcast
  leaves and the \<open>j\<close> synthetic leaves before it), and the new leaf is a default node
  whose centroid is the double \<^verbatim>\<open>1.0 / s\<close> times the sum of the \<open>s\<close> chosen centroids, added
  up from zero in the order of the draws with the addition of doubles: their arithmetic
  mean as double arithmetic computes it, whatever it rounds to.
\<close>

theorem ReplenishNodes_one_sample_size:
  assumes "RandInt_ok RandInt"
    and "top_leaf_nodes \<noteq> []"
    and "same_dimension dims top_leaf_nodes"
    and "s = max 1 (RandInt 0 (int (length top_leaf_nodes)))"
  shows "\<exists>new. ReplenishNodes' A t RandInt top_leaf_nodes = Inr (top_leaf_nodes @ new)
      \<and> length new = nat (table_outbox_group_comm_size' t - int (length top_leaf_nodes))
      \<and> (\<forall>j<length new. new ! j = TreeType_new\<lparr>center :=
            scaled_sum A s dims
              (drawn_centers RandInt (top_leaf_nodes @ take j new) (1 + j * nat s) (nat s))\<rparr>)"
proof -
  obtain first rest where fr: "top_leaf_nodes = first # rest"
    using assms(2) by (cases top_leaf_nodes) auto
  have s: "0 < s" using assms(4) by simp
  have d: "length (center first) = dims"
    using assms(3) fr by (simp add: same_dimension_hd)
  from add_dummy_nodes_ok [OF assms(1,2,3) s,
      of A "nat (table_outbox_group_comm_size' t - int (length top_leaf_nodes))" 1]
  obtain new where new:
    "add_dummy_nodes A RandInt s dims
       (nat (table_outbox_group_comm_size' t - int (length top_leaf_nodes))) 1 top_leaf_nodes
     = Inr (top_leaf_nodes @ new)"
    "length new = nat (table_outbox_group_comm_size' t - int (length top_leaf_nodes))"
    "\<forall>j<nat (table_outbox_group_comm_size' t - int (length top_leaf_nodes)).
        new ! j = TreeType_new\<lparr>center :=
          scaled_sum A s dims
            (drawn_centers RandInt (top_leaf_nodes @ take j new) (1 + j * nat s) (nat s))\<rparr>"
    by blast
  have run: "ReplenishNodes' A t RandInt top_leaf_nodes = Inr (top_leaf_nodes @ new)"
    using new(1) d fr assms(4) by (simp add: ReplenishNodes'_def Let_def)
  show ?thesis
    using run new(2,3) by (intro exI [of _ new]) simp
qed

theorem ReplenishNodes_one_sample_size_witness:
  "RandInt_ok RandInt_ex \<and> leaves_ex \<noteq> [] \<and> same_dimension 1 leaves_ex
   \<and> (2::int) = max 1 (RandInt_ex 0 (int (length leaves_ex)))
   \<and> (\<exists>new. ReplenishNodes' exact_arith group5_ex RandInt_ex leaves_ex = Inr (leaves_ex @ new)
        \<and> length new = 2
        \<and> new ! 0 = TreeType_new\<lparr>center := scaled_sum exact_arith 2 1 [[0], [2]]\<rparr>
        \<and> new ! 1 = TreeType_new\<lparr>center := scaled_sum exact_arith 2 1 [[2], [4]]\<rparr>)"
proof -
  have h2: "leaves_ex \<noteq> []" by (simp add: leaves_ex_def)
  have h3: "same_dimension 1 leaves_ex" by (simp add: padding_ex_defs)
  have h4: "(2::int) = max 1 (RandInt_ex 0 (int (length leaves_ex)))"
    by (simp add: padding_ex_defs)
  from ReplenishNodes_one_sample_size [OF RandInt_ok_ex h2 h3 h4, of exact_arith group5_ex]
  obtain new where new:
    "ReplenishNodes' exact_arith group5_ex RandInt_ex leaves_ex = Inr (leaves_ex @ new)"
    "length new = nat (table_outbox_group_comm_size' group5_ex - int (length leaves_ex))"
    "\<forall>j<length new. new ! j = TreeType_new\<lparr>center :=
        scaled_sum exact_arith 2 1
          (drawn_centers RandInt_ex (leaves_ex @ take j new) (1 + j * nat 2) (nat 2))\<rparr>"
    by blast
  have len: "length new = 2" using new(2) by (simp add: padding_ex_defs)
  have n0: "new ! 0 = TreeType_new\<lparr>center := scaled_sum exact_arith 2 1 [[0], [2]]\<rparr>"
    using new(3) [rule_format, of 0] len
    by (simp add: drawn_centers_def leaves_ex_def RandInt_ex_def eval_nat_numeral)
  obtain a b where ab: "new = [a, b]"
    using len by (cases new; cases "tl new") (auto simp add: eval_nat_numeral)
  have n1: "new ! 1 = TreeType_new\<lparr>center := scaled_sum exact_arith 2 1 [[2], [4]]\<rparr>"
    using new(3) [rule_format, of 1] ab
    by (simp add: drawn_centers_def leaves_ex_def RandInt_ex_def eval_nat_numeral)
  show ?thesis
    using RandInt_ok_ex h2 h3 h4 new(1) len n0 n1 by blast
qed

subsection \<open>Migration: the loops of \<^verbatim>\<open>ReadjustCentroids_\<close>\<close>

lemma map_minus_upt: "map (\<lambda>i. r - i) [1..<Suc r] = rev [0..<r]"
proof (induction r)
  case 0
  then show ?case by simp
next
  case (Suc r)
  have "map (\<lambda>i. Suc r - i) [1..<Suc (Suc r)] = map (\<lambda>i. Suc r - i) (1 # map Suc [1..<Suc r])"
    by (simp only: map_Suc_upt upt_conv_Cons [of 1 "Suc (Suc r)"])
  also have "\<dots> = r # map (\<lambda>i. r - i) [1..<Suc r]"
    by (simp add: comp_def)
  finally show ?case using Suc.IH by simp
qed

lemma map_plus_upt: "map (\<lambda>i. r + i) [1..<Suc n] = [Suc r..<Suc (r + n)]"
  by (induction n) simp_all

lemma write_fragment_next:
  "length f \<le> k \<Longrightarrow>
   write_fragment (length w) f (map Some w @ replicate k None) =
     Inr (map Some (w @ f) @ replicate (k - length f) None)"
  by (simp add: write_fragment_def)

lemma recv_loop_ok:
  assumes "\<forall>i\<in>set is. mailbox (source i) (tag i) = Some (frag i)"
    and "new_table st = map Some w @ replicate k None"
    and "new_table_ptr st = length w"
    and "length (concat (map frag is)) \<le> k"
  shows "recv_loop mailbox source tag is st =
     Inr \<lparr>new_table = map Some (w @ concat (map frag is)) @
                        replicate (k - length (concat (map frag is))) None,
          new_table_ptr = length w + length (concat (map frag is)),
          trace = trace st @ recv_events source tag frag (length w) is\<rparr>"
  using assms
proof (induction "is" arbitrary: st w k)
  case Nil
  then show ?case by simp
next
  case (Cons i "is")
  let ?st = "\<lparr>new_table = map Some (w @ frag i) @ replicate (k - length (frag i)) None,
              new_table_ptr = new_table_ptr st + length (frag i),
              trace = trace st @ [Recv (source i) (tag i) (new_table_ptr st) (frag i)]\<rparr>"
  have le: "length (frag i) \<le> k" using Cons.prems(4) by simp
  have step: "recv_loop mailbox source tag (i # is) st = recv_loop mailbox source tag is ?st"
    using Cons.prems(1,2,3) write_fragment_next [OF le, of w] by simp
  have rest: "length (concat (map frag is)) \<le> k - length (frag i)"
    using Cons.prems(4) by simp
  have "recv_loop mailbox source tag is ?st =
     Inr \<lparr>new_table = map Some ((w @ frag i) @ concat (map frag is)) @
                        replicate (k - length (frag i) - length (concat (map frag is))) None,
          new_table_ptr = length (w @ frag i) + length (concat (map frag is)),
          trace = trace ?st @ recv_events source tag frag (length (w @ frag i)) is\<rparr>"
    by (rule Cons.IH) (use Cons.prems rest in simp_all)
  then show ?case
    unfolding step using Cons.prems(3) by (simp add: add.assoc)
qed

lemma length_contribution:
  "length as = length xs \<Longrightarrow> length (contribution xs as d) = count_list as d"
  by (induction as xs rule: list_induct2) (simp_all add: contribution_def)

lemma map_of_keyed:
  "inj_on key (set xs) \<Longrightarrow> j \<in> set xs \<Longrightarrow>
   map_of (map (\<lambda>i. (key i, val i)) xs) (key j) = Some (val j)"
  by (induction xs) (auto simp add: inj_on_def)

lemma map_of_keyed_None:
  "(\<And>i. i \<in> set xs \<Longrightarrow> key i \<noteq> k) \<Longrightarrow> map_of (map (\<lambda>i. (key i, val i)) xs) k = None"
  by (induction xs) auto

lemma keyed_isends:
  "map (\<lambda>(dest, tag, frag). ((dest, tag), frag)) (isends (comm_of P q) xs as) =
     map (\<lambda>i. ((q - i, i), contribution xs as (q - i))) [1..<Suc (min q P)] @
     map (\<lambda>i. ((q + i, P + i), contribution xs as (q + i))) [1..<Suc (min (P - q - 1) P)]"
  by (simp del: upt_Suc add: isends_def left_isends_def right_isends_def comm_of_def
      left_contributions_size_def right_contributions_size_def comp_def)

lemma mailbox_from_left:
  assumes "q < r" "r < P"
  shows "mailbox_of P shards kmeans r q (P + (r - q)) = Some (fragment_from shards kmeans q r)"
proof -
  let ?C = "contribution (shards ! q) (snd (kmeans ! q))"
  let ?L = "[1..<Suc (min q P)]" and ?R = "[1..<Suc (min (P - q - 1) P)]"
  have left: "map_of (map (\<lambda>i. ((q - i, i), ?C (q - i))) ?L) (r, P + (r - q)) = None"
    by (rule map_of_keyed_None) (use assms in auto)
  have inj: "inj_on (\<lambda>i. (q + i, P + i)) (set ?R)" by (simp add: inj_on_def)
  have mem: "r - q \<in> set ?R" using assms by auto
  have "map_of (map (\<lambda>i. ((q + i, P + i), ?C (q + i))) ?R) (q + (r - q), P + (r - q))
        = Some (?C (q + (r - q)))"
    by (rule map_of_keyed [OF inj mem])
  then have right: "map_of (map (\<lambda>i. ((q + i, P + i), ?C (q + i))) ?R) (r, P + (r - q)) = Some (?C r)"
    using assms by simp
  have "q < P" using assms by simp
  then show ?thesis
    unfolding mailbox_of_def keyed_isends fragment_from_def
    by (simp only: if_True map_of_append map_add_def left right option.case)
qed

lemma mailbox_from_right:
  assumes "r < q" "q < P"
  shows "mailbox_of P shards kmeans r q (q - r) = Some (fragment_from shards kmeans q r)"
proof -
  let ?C = "contribution (shards ! q) (snd (kmeans ! q))"
  let ?L = "[1..<Suc (min q P)]"
  have inj: "inj_on (\<lambda>i. (q - i, i)) (set ?L)" by (simp add: inj_on_def)
  have mem: "q - r \<in> set ?L" using assms by auto
  have "map_of (map (\<lambda>i. ((q - i, i), ?C (q - i))) ?L) (q - (q - r), q - r)
        = Some (?C (q - (q - r)))"
    by (rule map_of_keyed [OF inj mem])
  then have left: "map_of (map (\<lambda>i. ((q - i, i), ?C (q - i))) ?L) (r, q - r) = Some (?C r)"
    using assms by simp
  show ?thesis
    unfolding mailbox_of_def keyed_isends fragment_from_def
    using assms(2) by (simp only: if_True map_of_append map_add_def left option.case)
qed

lemma concat_arrival_order:
  "concat (map f (arrival_order P r)) =
     concat (map f (rev [0..<r])) @ f r @ concat (map f [Suc r..<P])"
  by (simp add: arrival_order_def)

lemma take_new_table_full:
  "new_table st = map Some w @ replicate 0 None \<Longrightarrow>
   take_new_table st = Inr (trace st @ [WaitAll, WaitAll, Barrier], w)"
  by (simp add: take_new_table_def list_all_iff comp_def)

lemma comm_rank_comm_of: "comm_rank (comm_of P r) = r"
  by (simp add: comm_of_def)

lemma comm_size_comm_of: "comm_size (comm_of P r) = P"
  by (simp add: comm_of_def)

lemma ReadjustCentroids_process_ok:
  assumes r: "r < P"
    and total: "fst (kmeans ! r) =
       length (concat (map (\<lambda>q. fragment_from shards kmeans q r) (arrival_order P r)))"
  shows "ReadjustCentroids_process P shards kmeans r =
     Inr (matched_trace P shards kmeans r,
          concat (map (\<lambda>q. fragment_from shards kmeans q r) (arrival_order P r)))"
proof -
  let ?F = "\<lambda>q. fragment_from shards kmeans q r"
  let ?T = "fst (kmeans ! r)"
  let ?mb = "mailbox_of P shards kmeans r"
  let ?tr0 = "KMeansCompute # map (\<lambda>(dest, tag, frag). Isend dest tag frag)
            (isends (comm_of P r) (shards ! r) (snd (kmeans ! r)))"
  let ?Li = "[1..<Suc r]" and ?Ri = "[1..<Suc (P - r - 1)]"
  let ?wl = "concat (map ?F (rev [0..<r]))"
  let ?wr = "concat (map ?F [Suc r..<P])"
  have sizes: "left_contributions_size (comm_of P r) = r"
      "right_contributions_size (comm_of P r) = P - r - 1"
    using r by (simp_all add: left_contributions_size_def right_contributions_size_def comm_of_def)
  have T: "?T = length ?wl + length (?F r) + length ?wr"
    using total by (simp only: concat_arrival_order length_append add.assoc)
  have lfr: "concat (map (\<lambda>i. ?F (r - i)) ?Li) = ?wl"
  proof -
    have "map (\<lambda>i. ?F (r - i)) ?Li = map ?F (map (\<lambda>i. r - i) ?Li)"
      by (simp only: map_map comp_def)
    then show ?thesis by (simp only: map_minus_upt)
  qed
  have rfr: "concat (map (\<lambda>i. ?F (r + i)) ?Ri) = ?wr"
  proof -
    have "map (\<lambda>i. ?F (r + i)) ?Ri = map ?F (map (\<lambda>i. r + i) ?Ri)"
      by (simp only: map_map comp_def)
    also have "map (\<lambda>i. r + i) ?Ri = [Suc r..<P]"
      using r by (simp only: map_plus_upt) simp
    finally show ?thesis by simp
  qed
  let ?st0 = "\<lparr>new_table = replicate ?T None, new_table_ptr = 0, trace = ?tr0\<rparr>"
  let ?st1 = "\<lparr>new_table = map Some ([] @ ?wl) @ replicate (?T - length ?wl) None,
               new_table_ptr = length ([] :: 'a list) + length ?wl,
               trace = ?tr0 @ recv_events (\<lambda>i. r - i) (\<lambda>i. P + i) (\<lambda>i. ?F (r - i)) 0 ?Li\<rparr>"
  have left: "recv_loop ?mb (\<lambda>i. r - i) (\<lambda>i. P + i) ?Li ?st0 = Inr ?st1"
  proof -
    have mb: "\<forall>i\<in>set ?Li. ?mb (r - i) (P + i) = Some (?F (r - i))"
    proof
      fix i assume "i \<in> set ?Li"
      then have i: "1 \<le> i" "i \<le> r" by auto
      then have "r - i < r" using i by simp
      from mailbox_from_left [OF this r, of shards kmeans] i
      show "?mb (r - i) (P + i) = Some (?F (r - i))" by simp
    qed
    have "recv_loop ?mb (\<lambda>i. r - i) (\<lambda>i. P + i) ?Li ?st0 =
      Inr \<lparr>new_table = map Some ([] @ concat (map (\<lambda>i. ?F (r - i)) ?Li)) @
                replicate (?T - length (concat (map (\<lambda>i. ?F (r - i)) ?Li))) None,
           new_table_ptr = length ([] :: 'a list) + length (concat (map (\<lambda>i. ?F (r - i)) ?Li)),
           trace = trace ?st0 @ recv_events (\<lambda>i. r - i) (\<lambda>i. P + i) (\<lambda>i. ?F (r - i))
                     (length ([] :: 'a list)) ?Li\<rparr>"
    proof (rule recv_loop_ok [where source = "\<lambda>i. r - i" and tag = "\<lambda>i. P + i"
            and frag = "\<lambda>i. ?F (r - i)" and w = "[]" and k = ?T])
      show "\<forall>i\<in>set ?Li. ?mb (r - i) (P + i) = Some (?F (r - i))" by (rule mb)
      show "length (concat (map (\<lambda>i. ?F (r - i)) ?Li)) \<le> ?T"
        unfolding lfr using T by simp
    qed simp_all
    then show ?thesis unfolding lfr by simp
  qed
  let ?st2 = "\<lparr>new_table = map Some (?wl @ ?F r) @ replicate (?T - length ?wl - length (?F r)) None,
               new_table_ptr = length ?wl + length (?F r),
               trace = trace ?st1 @ [SelfCopy (length ?wl) (?F r)]\<rparr>"
  have self: "self_copy (comm_of P r) (shards ! r) (snd (kmeans ! r)) ?st1 = Inr ?st2"
  proof -
    have le: "length (?F r) \<le> ?T - length ?wl" using T by simp
    show ?thesis
      using write_fragment_next [OF le, of ?wl]
      by (simp add: self_copy_def comm_of_def fragment_from_def Let_def)
  qed
  let ?st3 = "\<lparr>new_table = map Some ((?wl @ ?F r) @ ?wr) @ replicate 0 None,
               new_table_ptr = length (?wl @ ?F r) + length ?wr,
               trace = trace ?st2 @ recv_events (\<lambda>i. r + i) (\<lambda>i. i) (\<lambda>i. ?F (r + i))
                         (length (?wl @ ?F r)) ?Ri\<rparr>"
  have right: "recv_loop ?mb (\<lambda>i. r + i) (\<lambda>i. i) ?Ri ?st2 = Inr ?st3"
  proof -
    have mb: "\<forall>i\<in>set ?Ri. ?mb (r + i) i = Some (?F (r + i))"
    proof
      fix i assume "i \<in> set ?Ri"
      then have i: "1 \<le> i" "r + i < P" by auto
      then have "r < r + i" by simp
      from mailbox_from_right [OF this i(2), of shards kmeans]
      show "?mb (r + i) i = Some (?F (r + i))" by simp
    qed
    have "recv_loop ?mb (\<lambda>i. r + i) (\<lambda>i. i) ?Ri ?st2 =
      Inr \<lparr>new_table = map Some ((?wl @ ?F r) @ concat (map (\<lambda>i. ?F (r + i)) ?Ri)) @
                replicate (?T - length ?wl - length (?F r)
                           - length (concat (map (\<lambda>i. ?F (r + i)) ?Ri))) None,
           new_table_ptr = length (?wl @ ?F r) + length (concat (map (\<lambda>i. ?F (r + i)) ?Ri)),
           trace = trace ?st2 @ recv_events (\<lambda>i. r + i) (\<lambda>i. i) (\<lambda>i. ?F (r + i))
                     (length (?wl @ ?F r)) ?Ri\<rparr>"
    proof (rule recv_loop_ok [where source = "\<lambda>i. r + i" and tag = "\<lambda>i. i"
            and frag = "\<lambda>i. ?F (r + i)" and w = "?wl @ ?F r"
            and k = "?T - length ?wl - length (?F r)"])
      show "\<forall>i\<in>set ?Ri. ?mb (r + i) i = Some (?F (r + i))" by (rule mb)
      show "length (concat (map (\<lambda>i. ?F (r + i)) ?Ri)) \<le> ?T - length ?wl - length (?F r)"
        unfolding rfr using T by simp
    qed simp_all
    then show ?thesis unfolding rfr using T by simp
  qed
  have fin: "take_new_table ?st3 = Inr (trace ?st3 @ [WaitAll, WaitAll, Barrier], (?wl @ ?F r) @ ?wr)"
    by (rule take_new_table_full) simp
  have "ReadjustCentroids_process P shards kmeans r = take_new_table ?st3"
    unfolding ReadjustCentroids_process_def ReadjustCentroids'_def Let_def sizes
    by (simp only: comm_rank_comm_of comm_size_comm_of left self right sum.case)
  then show ?thesis
    unfolding fin matched_trace_def by (simp add: concat_arrival_order)
qed

lemma solver_consistentD:
  assumes "solver_consistent P shards kmeans"
  shows "length shards = P" "length kmeans = P"
    and "\<And>q. q < P \<Longrightarrow> length (snd (kmeans ! q)) = length (shards ! q)"
    and "\<And>q d. q < P \<Longrightarrow> d \<in> set (snd (kmeans ! q)) \<Longrightarrow> d < P"
    and "\<And>r. r < P \<Longrightarrow> fst (kmeans ! r) = (\<Sum>q\<leftarrow>[0..<P]. count_list (snd (kmeans ! q)) r)"
  using assms by (auto simp add: solver_consistent_def list_all_iff)

lemma upt_split: "r < P \<Longrightarrow> [0..<P] = [0..<r] @ [r] @ [Suc r..<P]"
proof -
  assume r: "r < P"
  have "[0..<P] = [0..<r] @ [r..<P]"
    using r upt_add_eq_append [of 0 r "P - r"] by simp
  also have "[r..<P] = r # [Suc r..<P]" using r by (rule upt_conv_Cons)
  finally show ?thesis by simp
qed

lemma sum_list_arrival_order:
  fixes f :: "nat \<Rightarrow> 'a::comm_monoid_add"
  assumes "r < P"
  shows "sum_list (map f (arrival_order P r)) = sum_list (map f [0..<P])"
proof -
  have "sum_list (map f (arrival_order P r)) =
        sum_list (map f [0..<r]) + (f r + sum_list (map f [Suc r..<P]))"
    by (simp add: arrival_order_def rev_map [symmetric] sum_list_rev del: upt_Suc)
  also have "\<dots> = sum_list (map f ([0..<r] @ [r] @ [Suc r..<P]))"
    by (simp del: upt_Suc)
  finally show ?thesis using upt_split [OF assms] by simp
qed

lemma length_fragment_from:
  assumes "solver_consistent P shards kmeans" "q < P"
  shows "length (fragment_from shards kmeans q r) = count_list (snd (kmeans ! q)) r"
  unfolding fragment_from_def
  by (rule length_contribution) (rule solver_consistentD(3) [OF assms])

lemma total_num_points_owned_fits:
  assumes c: "solver_consistent P shards kmeans" and r: "r < P"
  shows "fst (kmeans ! r) =
       length (concat (map (\<lambda>q. fragment_from shards kmeans q r) (arrival_order P r)))"
proof -
  have "length (concat (map (\<lambda>q. fragment_from shards kmeans q r) (arrival_order P r))) =
        sum_list (map (\<lambda>q. length (fragment_from shards kmeans q r)) (arrival_order P r))"
    by (simp add: length_concat comp_def)
  also have "\<dots> = sum_list (map (\<lambda>q. length (fragment_from shards kmeans q r)) [0..<P])"
    by (rule sum_list_arrival_order [OF r])
  also have "\<dots> = sum_list (map (\<lambda>q. count_list (snd (kmeans ! q)) r) [0..<P])"
    by (rule arg_cong [where f = sum_list], rule map_cong)
       (simp_all add: length_fragment_from [OF c])
  finally show ?thesis using solver_consistentD(5) [OF c r] by simp
qed

lemma ReadjustCentroids_process_consistent:
  assumes "solver_consistent P shards kmeans" "r < P"
  shows "ReadjustCentroids_process P shards kmeans r =
     Inr (matched_trace P shards kmeans r,
          concat (map (\<lambda>q. fragment_from shards kmeans q r) (arrival_order P r)))"
  by (rule ReadjustCentroids_process_ok [OF assms(2) total_num_points_owned_fits [OF assms]])

lemma collect_map_Inr:
  "(\<And>x. x \<in> set xs \<Longrightarrow> f x = Inr (g x)) \<Longrightarrow> collect (map f xs) = Inr (map g xs)"
  by (induction xs) simp_all

lemma sum_list_swap:
  fixes f :: "'b \<Rightarrow> 'c \<Rightarrow> 'a::comm_monoid_add"
  shows "(\<Sum>r\<leftarrow>xs. \<Sum>q\<leftarrow>ys. f q r) = (\<Sum>q\<leftarrow>ys. \<Sum>r\<leftarrow>xs. f q r)"
  by (induction xs) (simp_all add: sum_list_addf)

lemma sum_list_single:
  fixes m :: "'a::comm_monoid_add"
  shows "a < P \<Longrightarrow> (\<Sum>r\<leftarrow>[0..<P]. if a = r then m else 0) = m"
proof (induction P)
  case 0
  then show ?case by simp
next
  case (Suc P)
  show ?case
  proof (cases "a < P")
    case True
    then show ?thesis using Suc.IH by simp
  next
    case False
    then have a: "a = P" using Suc.prems by simp
    have "(\<Sum>r\<leftarrow>[0..<P]. if P = r then m else 0) = (\<Sum>r\<leftarrow>[0..<P]. 0)"
      by (rule arg_cong [where f = sum_list], rule map_cong) simp_all
    then show ?thesis using a by simp
  qed
qed

lemma mset_contribution_partition:
  assumes "length as = length xs" "\<forall>d\<in>set as. d < P"
  shows "(\<Sum>r\<leftarrow>[0..<P]. mset (contribution xs as r)) = mset xs"
  using assms
proof (induction as xs rule: list_induct2)
  case Nil
  then show ?case by (simp add: contribution_def)
next
  case (Cons a as x xs)
  have split: "\<And>r. mset (contribution (x # xs) (a # as) r) =
      (if a = r then {#x#} else {#}) + mset (contribution xs as r)"
    by (simp add: contribution_def)
  have "(\<Sum>r\<leftarrow>[0..<P]. mset (contribution (x # xs) (a # as) r)) =
        (\<Sum>r\<leftarrow>[0..<P]. if a = r then {#x#} else {#}) + (\<Sum>r\<leftarrow>[0..<P]. mset (contribution xs as r))"
    by (simp only: split sum_list_addf)
  also have "\<dots> = {#x#} + mset xs"
    using Cons by (simp add: sum_list_single)
  finally show ?case by simp
qed

lemma mset_new_shards:
  assumes c: "solver_consistent P shards kmeans"
  shows "(\<Sum>r\<leftarrow>[0..<P]. mset (concat (map (\<lambda>q. fragment_from shards kmeans q r) (arrival_order P r))))
       = (\<Sum>s\<leftarrow>shards. mset s)"
proof -
  have "(\<Sum>r\<leftarrow>[0..<P]. mset (concat (map (\<lambda>q. fragment_from shards kmeans q r) (arrival_order P r))))
      = (\<Sum>r\<leftarrow>[0..<P]. \<Sum>q\<leftarrow>[0..<P]. mset (fragment_from shards kmeans q r))"
  proof (rule arg_cong [where f = sum_list], rule map_cong)
    fix r assume "r \<in> set [0..<P]"
    then have r: "r < P" by simp
    have "mset (concat (map (\<lambda>q. fragment_from shards kmeans q r) (arrival_order P r)))
        = sum_list (map (\<lambda>q. mset (fragment_from shards kmeans q r)) (arrival_order P r))"
      by (simp add: mset_concat comp_def)
    then show "mset (concat (map (\<lambda>q. fragment_from shards kmeans q r) (arrival_order P r)))
        = (\<Sum>q\<leftarrow>[0..<P]. mset (fragment_from shards kmeans q r))"
      by (simp only: sum_list_arrival_order [OF r])
  qed simp
  also have "\<dots> = (\<Sum>q\<leftarrow>[0..<P]. \<Sum>r\<leftarrow>[0..<P]. mset (fragment_from shards kmeans q r))"
    by (rule sum_list_swap)
  also have "\<dots> = (\<Sum>q\<leftarrow>[0..<P]. mset (shards ! q))"
  proof (rule arg_cong [where f = sum_list], rule map_cong)
    fix q assume "q \<in> set [0..<P]"
    then have q: "q < P" by simp
    show "(\<Sum>r\<leftarrow>[0..<P]. mset (fragment_from shards kmeans q r)) = mset (shards ! q)"
      unfolding fragment_from_def
      by (rule mset_contribution_partition)
         (use solver_consistentD(3,4) [OF c q] in auto)
  qed simp
  also have "\<dots> = (\<Sum>s\<leftarrow>map ((!) shards) [0..<P]. mset s)"
    by (simp add: comp_def)
  also have "map ((!) shards) [0..<P] = shards"
    using solver_consistentD(1) [OF c] map_nth [of shards] by simp
  finally show ?thesis .
qed

lemma size_sum_list_mset: "size (\<Sum>s\<leftarrow>xs. mset s) = (\<Sum>s\<leftarrow>xs. length s)"
  by (induction xs) simp_all

lemma no_fill_in_isends:
  "filter fills_new_table (map (\<lambda>(dest, tag, frag). Isend dest tag frag) xs) = []"
  by (induction xs) (auto split: prod.splits)

lemma filter_recv_events:
  "filter fills_new_table (recv_events s t f off is) = recv_events s t f off is"
  by (induction "is" arbitrary: off) simp_all

lemma sources_recv_events:
  "map (fragment_source me) (recv_events s t f off is) = map s is"
  by (induction "is" arbitrary: off) simp_all

lemma fragments_recv_events:
  "map fragment_of (recv_events s t f off is) = map f is"
  by (induction "is" arbitrary: off) simp_all

lemma offsets_recv_events:
  "map fragment_offset (recv_events s t f off is) = running_offsets off (map f is)"
  by (induction "is" arbitrary: off) simp_all

lemma running_offsets_append:
  "running_offsets off (xs @ ys) =
     running_offsets off xs @ running_offsets (off + length (concat xs)) ys"
  by (induction xs arbitrary: off) (simp_all add: add.assoc)

lemma fills_of_matched_trace:
  "filter fills_new_table (matched_trace P shards kmeans r) =
     recv_events (\<lambda>i. r - i) (\<lambda>i. P + i) (\<lambda>i. fragment_from shards kmeans (r - i) r) 0
       [1..<Suc r] @
     [SelfCopy (length (concat (map (\<lambda>q. fragment_from shards kmeans q r) (rev [0..<r]))))
        (fragment_from shards kmeans r r)] @
     recv_events (\<lambda>i. r + i) (\<lambda>i. i) (\<lambda>i. fragment_from shards kmeans (r + i) r)
       (length (concat (map (\<lambda>q. fragment_from shards kmeans q r) (rev [0..<r] @ [r]))))
       [1..<Suc (P - r - 1)]"
  unfolding matched_trace_def
  by (simp only: filter.simps filter_append no_fill_in_isends filter_recv_events
      fills_new_table.simps if_True if_False append_Nil append_Nil2)

lemma left_fragments:
  "map (\<lambda>i. f (r - i)) [1..<Suc r] = map f (rev [0..<r])"
proof -
  have "map (\<lambda>i. f (r - i)) [1..<Suc r] = map f (map (\<lambda>i. r - i) [1..<Suc r])"
    by (simp only: map_map comp_def)
  then show ?thesis by (simp only: map_minus_upt)
qed

lemma right_fragments:
  assumes "r < P"
  shows "map (\<lambda>i. f (r + i)) [1..<Suc (P - r - 1)] = map f [Suc r..<P]"
proof -
  have "map (\<lambda>i. f (r + i)) [1..<Suc (P - r - 1)] = map f (map (\<lambda>i. r + i) [1..<Suc (P - r - 1)])"
    by (simp only: map_map comp_def)
  also have "map (\<lambda>i. r + i) [1..<Suc (P - r - 1)] = [Suc r..<P]"
    using assms by (simp only: map_plus_upt) simp
  finally show ?thesis .
qed

lemma right_sources:
  assumes "r < P"
  shows "map (\<lambda>i. r + i) [1..<Suc (P - r - 1)] = [Suc r..<P]"
  using assms by (simp only: map_plus_upt) simp

subsection \<open>Migration: the order of the receives\<close>

text \<open>
  C3, amended. In a group whose solver results are consistent, process \<open>r\<close> fills its new
  table in this order: the fragments of its left neighbours in descending sender rank
  (the nearest neighbour \<open>r - 1\<close> first, rank 0 last), then the copy of its own points,
  then the fragments of its right neighbours in ascending sender rank. Each fragment
  is written at the running offset, that is immediately after the previous one, and the
  new shard is the concatenation of the fragments in that order.
\<close>

theorem receive_order_nearest_first:
  assumes "solver_consistent P shards kmeans" and "r < P"
  shows "\<exists>tr new. ReadjustCentroids_process P shards kmeans r = Inr (tr, new)
     \<and> map (fragment_source r) (filter fills_new_table tr) = rev [0..<r] @ [r] @ [Suc r..<P]
     \<and> map fragment_offset (filter fills_new_table tr) =
         running_offsets 0 (map fragment_of (filter fills_new_table tr))
     \<and> new = concat (map fragment_of (filter fills_new_table tr))"
proof -
  let ?F = "\<lambda>q. fragment_from shards kmeans q r"
  let ?tr = "matched_trace P shards kmeans r"
  let ?new = "concat (map ?F (arrival_order P r))"
  have run: "ReadjustCentroids_process P shards kmeans r = Inr (?tr, ?new)"
    by (rule ReadjustCentroids_process_consistent [OF assms])
  have src: "map (fragment_source r) (filter fills_new_table ?tr) = rev [0..<r] @ [r] @ [Suc r..<P]"
    unfolding fills_of_matched_trace
    by (simp only: map_append sources_recv_events map_minus_upt right_sources [OF assms(2)]
        list.map fragment_source.simps)
  note lf = left_fragments [of ?F r] and rf = right_fragments [OF assms(2), of ?F]
  have frs: "map fragment_of (filter fills_new_table ?tr) = map ?F (arrival_order P r)"
    unfolding fills_of_matched_trace arrival_order_def
    by (simp only: map_append fragments_recv_events lf rf
        list.map fragment_of.simps)
  have offs: "map fragment_offset (filter fills_new_table ?tr) =
      running_offsets 0 (map ?F (arrival_order P r))"
    unfolding fills_of_matched_trace arrival_order_def
    by (simp only: map_append offsets_recv_events lf rf
        list.map fragment_offset.simps running_offsets_append running_offsets.simps
        concat_append concat.simps length_append add_0 append_Nil2 add_0_right)
  show ?thesis
    using run src frs offs by (intro exI [of _ ?tr] exI [of _ ?new]) simp
qed

lemma consistent_ex: "solver_consistent 3 shards_ex kmeans_ex"
  by (simp add: solver_consistent_def shards_ex_def kmeans_ex_def upt_conv_Cons)

lemmas migration_defs =
  ReadjustCentroids_process_def ReadjustCentroids'_def mailbox_of_def comm_of_def
  isends_def left_isends_def right_isends_def left_contributions_size_def
  right_contributions_size_def contribution_def self_copy_def write_fragment_def
  take_new_table_def

text \<open>
  C3, as stated, fails. The claim is that the fragments of the left neighbours are
  received in ascending sender rank, the farthest neighbour first. The loop runs
  \<open>i = 1, 2, \<dots>\<close> and receives from \<open>rank - i\<close>: the nearest neighbour comes first. In the
  example, rank 2 of three processes receives from rank 1, then from rank 0, then copies
  its own points.
\<close>

theorem receive_order_counterexample:
  "ReadjustCentroids_process 3 shards_ex kmeans_ex 2 =
     Inr ([KMeansCompute, Isend 1 1 [32], Isend 0 2 [31],
           Recv 1 4 0 [20], Recv 0 5 1 [11], SelfCopy 2 [30],
           WaitAll, WaitAll, Barrier],
          [20, 11, 30])
   \<and> map (fragment_source 2)
        (filter fills_new_table
           [KMeansCompute, Isend 1 1 [32], Isend 0 2 [31],
            Recv 1 4 0 [20], Recv 0 5 1 [11], SelfCopy 2 [30 :: nat],
            WaitAll, WaitAll, Barrier]) = [1, 0, 2]
   \<and> [1, 0, 2] \<noteq> [0, 1, 2 :: nat]"
  by (simp add: migration_defs shards_ex_def kmeans_ex_def Let_def upt_conv_Cons)

theorem receive_order_nearest_first_witness:
  "solver_consistent 3 shards_ex kmeans_ex \<and> (2::nat) < 3
   \<and> (\<exists>tr new. ReadjustCentroids_process 3 shards_ex kmeans_ex 2 = Inr (tr, new)
        \<and> map (fragment_source 2) (filter fills_new_table tr) = [1, 0, 2]
        \<and> map fragment_offset (filter fills_new_table tr) =
            running_offsets 0 (map fragment_of (filter fills_new_table tr))
        \<and> new = concat (map fragment_of (filter fills_new_table tr)))"
proof -
  have r: "(2::nat) < 3" by simp
  have o: "rev [0..<2] @ [2] @ [Suc 2..<3] = [1, 0, 2 :: nat]"
    by (simp add: upt_conv_Cons)
  from receive_order_nearest_first [OF consistent_ex r]
  show ?thesis using consistent_ex r unfolding o by blast
qed

subsection \<open>Migration: the tags\<close>

lemma Isend_not_in_recv_events:
  "Isend d t f \<notin> set (recv_events s tg fr off is)"
  by (induction "is" arbitrary: off) simp_all

lemma Isend_in_mapped:
  "Isend d t f \<in> set (map (\<lambda>(dest, tag, frag). Isend dest tag frag) xs) \<longleftrightarrow> (d, t, f) \<in> set xs"
  by (induction xs) (auto split: prod.splits)

lemma Isend_in_matched_trace:
  "Isend d t f \<in> set (matched_trace P shards kmeans r) \<longleftrightarrow>
     (d, t, f) \<in> set (isends (comm_of P r) (shards ! r) (snd (kmeans ! r)))"
proof -
  have "Isend d t f \<in> set (matched_trace P shards kmeans r) \<longleftrightarrow>
     Isend d t f \<in> set (map (\<lambda>(dest, tag, frag). Isend dest tag frag)
       (isends (comm_of P r) (shards ! r) (snd (kmeans ! r))))"
    unfolding matched_trace_def
    by (simp only: set_append set_simps Un_iff insert_iff empty_iff Isend_not_in_recv_events
        event.distinct simp_thms)
  then show ?thesis by (simp only: Isend_in_mapped)
qed

lemma in_isends:
  assumes "r < P"
  shows "(d, t, f) \<in> set (isends (comm_of P r) xs as) \<longleftrightarrow>
     (\<exists>i. 1 \<le> i \<and> i \<le> r \<and> d = r - i \<and> t = i \<and> f = contribution xs as (r - i)) \<or>
     (\<exists>i. 1 \<le> i \<and> r + i < P \<and> d = r + i \<and> t = P + i \<and> f = contribution xs as (r + i))"
proof -
  have sizes: "left_contributions_size (comm_of P r) = r"
      "right_contributions_size (comm_of P r) = P - r - 1"
    using assms by (simp_all add: left_contributions_size_def right_contributions_size_def comm_of_def)
  have l: "(d, t, f) \<in> set (left_isends (comm_of P r) xs as) \<longleftrightarrow>
      (\<exists>i. 1 \<le> i \<and> i \<le> r \<and> d = r - i \<and> t = i \<and> f = contribution xs as (r - i))"
    unfolding left_isends_def sizes comm_rank_comm_of comm_size_comm_of
    by (auto simp del: upt_Suc)
  have r: "(d, t, f) \<in> set (right_isends (comm_of P r) xs as) \<longleftrightarrow>
      (\<exists>i. 1 \<le> i \<and> r + i < P \<and> d = r + i \<and> t = P + i \<and> f = contribution xs as (r + i))"
    unfolding right_isends_def sizes comm_rank_comm_of comm_size_comm_of
    using assms by (auto simp del: upt_Suc)
  show ?thesis unfolding isends_def using l r by simp
qed

lemma Recv_in_recv_events:
  "i \<in> set is \<Longrightarrow> \<exists>off. Recv (s i) (tg i) off (fr i) \<in> set (recv_events s tg fr off0 is)"
proof (induction "is" arbitrary: off0)
  case Nil
  then show ?case by simp
next
  case (Cons j "is")
  show ?case
  proof (cases "i = j")
    case True
    then show ?thesis by (intro exI [of _ off0]) simp
  next
    case False
    then have "i \<in> set is" using Cons.prems by simp
    from Cons.IH [OF this, of "off0 + length (fr j)"]
    obtain off where "Recv (s i) (tg i) off (fr i) \<in> set (recv_events s tg fr (off0 + length (fr j)) is)"
      by blast
    then show ?thesis by (intro exI [of _ off]) simp
  qed
qed

lemma Recv_from_right_in_matched_trace:
  assumes "r < q" "q < P"
  shows "\<exists>off. Recv q (q - r) off (fragment_from shards kmeans q r)
           \<in> set (matched_trace P shards kmeans r)"
proof -
  have mem: "q - r \<in> set [1..<Suc (P - r - 1)]" using assms by auto
  from Recv_in_recv_events [OF mem, of "\<lambda>i. r + i" "\<lambda>i. i"
      "\<lambda>i. fragment_from shards kmeans (r + i) r"
      "length (concat (map (\<lambda>q. fragment_from shards kmeans q r) (rev [0..<r] @ [r])))"]
  obtain off where "Recv (r + (q - r)) (q - r) off (fragment_from shards kmeans (r + (q - r)) r)
      \<in> set (recv_events (\<lambda>i. r + i) (\<lambda>i. i) (\<lambda>i. fragment_from shards kmeans (r + i) r)
          (length (concat (map (\<lambda>q. fragment_from shards kmeans q r) (rev [0..<r] @ [r]))))
          [1..<Suc (P - r - 1)])"
    by blast
  moreover have "r + (q - r) = q" using assms by simp
  ultimately show ?thesis
    unfolding matched_trace_def by (intro exI [of _ off]) (simp del: upt_Suc)
qed

lemma Recv_from_left_in_matched_trace:
  assumes "q < r" "r < P"
  shows "\<exists>off. Recv q (P + (r - q)) off (fragment_from shards kmeans q r)
           \<in> set (matched_trace P shards kmeans r)"
proof -
  have mem: "r - q \<in> set [1..<Suc r]" using assms by auto
  from Recv_in_recv_events [OF mem, of "\<lambda>i. r - i" "\<lambda>i. P + i"
      "\<lambda>i. fragment_from shards kmeans (r - i) r" 0]
  obtain off where "Recv (r - (r - q)) (P + (r - q)) off (fragment_from shards kmeans (r - (r - q)) r)
      \<in> set (recv_events (\<lambda>i. r - i) (\<lambda>i. P + i) (\<lambda>i. fragment_from shards kmeans (r - i) r) 0
          [1..<Suc r])"
    by blast
  moreover have "r - (r - q) = q" using assms by simp
  ultimately show ?thesis
    unfolding matched_trace_def by (intro exI [of _ off]) (simp del: upt_Suc)
qed

lemma ReadjustCentroids_group_consistent:
  assumes "solver_consistent P shards kmeans"
  shows "ReadjustCentroids_group P shards kmeans =
     Inr (map (\<lambda>r. (matched_trace P shards kmeans r,
                     concat (map (\<lambda>q. fragment_from shards kmeans q r) (arrival_order P r))))
            [0..<P])"
  unfolding ReadjustCentroids_group_def
  by (rule collect_map_Inr) (simp add: ReadjustCentroids_process_consistent [OF assms])

text \<open>
  C4. In a group whose solver results are consistent, every process completes, and for
  every neighbour offset \<open>i\<close>: the fragment that rank \<open>r\<close> sends to rank \<open>r - i\<close> carries the
  tag \<open>i\<close> and rank \<open>r - i\<close> receives that fragment from \<open>r\<close> with the tag \<open>i\<close>; the
  fragment that \<open>r\<close> sends to \<open>r + i\<close> carries the tag \<open>P + i\<close> (\<open>P\<close> is
  \<^verbatim>\<open>neighbor_radius\<close>) and rank \<open>r + i\<close> receives it from \<open>r\<close> with the tag \<open>P + i\<close>. The two
  fragments that two ranks send to each other never carry the same tag.
\<close>

theorem send_and_receive_tags_match:
  assumes "solver_consistent P shards kmeans"
  shows "\<exists>res. ReadjustCentroids_group P shards kmeans = Inr res \<and> length res = P \<and>
     (\<forall>r i. r < P \<and> 1 \<le> i \<and> i \<le> r \<longrightarrow>
        Isend (r - i) i (fragment_from shards kmeans r (r - i)) \<in> set (fst (res ! r)) \<and>
        (\<exists>off. Recv r i off (fragment_from shards kmeans r (r - i))
                 \<in> set (fst (res ! (r - i))))) \<and>
     (\<forall>r i. 1 \<le> i \<and> r + i < P \<longrightarrow>
        Isend (r + i) (P + i) (fragment_from shards kmeans r (r + i)) \<in> set (fst (res ! r)) \<and>
        (\<exists>off. Recv r (P + i) off (fragment_from shards kmeans r (r + i))
                 \<in> set (fst (res ! (r + i))))) \<and>
     (\<forall>a b t1 t2 f1 f2. a < P \<and> b < P \<and>
        Isend b t1 f1 \<in> set (fst (res ! a)) \<and> Isend a t2 f2 \<in> set (fst (res ! b)) \<longrightarrow>
        t1 \<noteq> t2)"
proof -
  let ?res = "map (\<lambda>r. (matched_trace P shards kmeans r,
                     concat (map (\<lambda>q. fragment_from shards kmeans q r) (arrival_order P r))))
            [0..<P]"
  have run: "ReadjustCentroids_group P shards kmeans = Inr ?res"
    by (rule ReadjustCentroids_group_consistent [OF assms])
  have tr: "\<And>r. r < P \<Longrightarrow> fst (?res ! r) = matched_trace P shards kmeans r"
    by simp
  have left: "\<forall>r i. r < P \<and> 1 \<le> i \<and> i \<le> r \<longrightarrow>
        Isend (r - i) i (fragment_from shards kmeans r (r - i)) \<in> set (fst (?res ! r)) \<and>
        (\<exists>off. Recv r i off (fragment_from shards kmeans r (r - i))
                 \<in> set (fst (?res ! (r - i))))"
  proof (intro allI impI)
    fix r i assume h: "r < P \<and> 1 \<le> i \<and> i \<le> r"
    then have lt: "r - i < r" "r - i < P" by arith+
    have s: "Isend (r - i) i (fragment_from shards kmeans r (r - i))
        \<in> set (matched_trace P shards kmeans r)"
      unfolding Isend_in_matched_trace in_isends [of r P, OF conjunct1 [OF h]] fragment_from_def
      using h by blast
    from Recv_from_right_in_matched_trace [OF lt(1) conjunct1 [OF h], of shards kmeans]
    have "\<exists>off. Recv r i off (fragment_from shards kmeans r (r - i))
        \<in> set (matched_trace P shards kmeans (r - i))"
      using h by simp
    then show "Isend (r - i) i (fragment_from shards kmeans r (r - i)) \<in> set (fst (?res ! r)) \<and>
        (\<exists>off. Recv r i off (fragment_from shards kmeans r (r - i))
                 \<in> set (fst (?res ! (r - i))))"
      using s tr [OF conjunct1 [OF h]] tr [OF lt(2)] by simp
  qed
  have right: "\<forall>r i. 1 \<le> i \<and> r + i < P \<longrightarrow>
        Isend (r + i) (P + i) (fragment_from shards kmeans r (r + i)) \<in> set (fst (?res ! r)) \<and>
        (\<exists>off. Recv r (P + i) off (fragment_from shards kmeans r (r + i))
                 \<in> set (fst (?res ! (r + i))))"
  proof (intro allI impI)
    fix r i assume h: "1 \<le> i \<and> r + i < P"
    then have lt: "r < r + i" "r < P" "r + i < P" by simp_all
    have s: "Isend (r + i) (P + i) (fragment_from shards kmeans r (r + i))
        \<in> set (matched_trace P shards kmeans r)"
      unfolding Isend_in_matched_trace in_isends [of r P, OF lt(2)] fragment_from_def
      using h by blast
    from Recv_from_left_in_matched_trace [OF lt(1) lt(3), of shards kmeans]
    have "\<exists>off. Recv r (P + i) off (fragment_from shards kmeans r (r + i))
        \<in> set (matched_trace P shards kmeans (r + i))"
      by simp
    then show "Isend (r + i) (P + i) (fragment_from shards kmeans r (r + i)) \<in> set (fst (?res ! r)) \<and>
        (\<exists>off. Recv r (P + i) off (fragment_from shards kmeans r (r + i))
                 \<in> set (fst (?res ! (r + i))))"
      using s tr [OF lt(2)] tr [OF lt(3)] by simp
  qed
  have opp: "\<forall>a b t1 t2 f1 f2. a < P \<and> b < P \<and>
        Isend b t1 f1 \<in> set (fst (?res ! a)) \<and> Isend a t2 f2 \<in> set (fst (?res ! b)) \<longrightarrow>
        t1 \<noteq> t2"
  proof (intro allI impI)
    fix a b t1 t2 f1 f2
    assume h: "a < P \<and> b < P \<and>
        Isend b t1 f1 \<in> set (fst (?res ! a)) \<and> Isend a t2 f2 \<in> set (fst (?res ! b))"
    then have a: "a < P" and b: "b < P" by simp_all
    have s1: "(b, t1, f1) \<in> set (isends (comm_of P a) (shards ! a) (snd (kmeans ! a)))"
      using h tr [OF a] by (simp add: Isend_in_matched_trace)
    have s2: "(a, t2, f2) \<in> set (isends (comm_of P b) (shards ! b) (snd (kmeans ! b)))"
      using h tr [OF b] by (simp add: Isend_in_matched_trace)
    from s1 [unfolded in_isends [OF a]] s2 [unfolded in_isends [OF b]] a b
    show "t1 \<noteq> t2" by auto
  qed
  have len: "length ?res = P" by simp
  show ?thesis
    by (rule exI [of _ ?res]) (intro conjI run len left right opp)
qed

theorem send_and_receive_tags_match_witness:
  "solver_consistent 3 shards_ex kmeans_ex
   \<and> (\<exists>res. ReadjustCentroids_group 3 shards_ex kmeans_ex = Inr res \<and> length res = 3
        \<and> Isend 1 1 [32] \<in> set (fst (res ! 2))
        \<and> (\<exists>off. Recv 2 1 off [32] \<in> set (fst (res ! 1)))
        \<and> Isend 2 4 [20] \<in> set (fst (res ! 1))
        \<and> (\<exists>off. Recv 1 4 off [20] \<in> set (fst (res ! 2))))"
proof -
  have f1: "fragment_from shards_ex kmeans_ex 2 1 = [32]"
    by (simp add: fragment_from_def contribution_def shards_ex_def kmeans_ex_def)
  have f2: "fragment_from shards_ex kmeans_ex 1 2 = [20]"
    by (simp add: fragment_from_def contribution_def shards_ex_def kmeans_ex_def)
  from send_and_receive_tags_match [OF consistent_ex]
  obtain res where res: "ReadjustCentroids_group 3 shards_ex kmeans_ex = Inr res" "length res = 3"
    and left: "\<forall>r i. r < 3 \<and> 1 \<le> i \<and> i \<le> r \<longrightarrow>
        Isend (r - i) i (fragment_from shards_ex kmeans_ex r (r - i)) \<in> set (fst (res ! r)) \<and>
        (\<exists>off. Recv r i off (fragment_from shards_ex kmeans_ex r (r - i))
                 \<in> set (fst (res ! (r - i))))"
    and right: "\<forall>r i. 1 \<le> i \<and> r + i < 3 \<longrightarrow>
        Isend (r + i) (3 + i) (fragment_from shards_ex kmeans_ex r (r + i)) \<in> set (fst (res ! r)) \<and>
        (\<exists>off. Recv r (3 + i) off (fragment_from shards_ex kmeans_ex r (r + i))
                 \<in> set (fst (res ! (r + i))))"
    by blast
  have e: "(2::nat) - 1 = 1" "(1::nat) + 1 = 2" "(3::nat) + 1 = 4" by simp_all
  have "Isend (2 - 1) 1 (fragment_from shards_ex kmeans_ex 2 (2 - 1)) \<in> set (fst (res ! 2)) \<and>
        (\<exists>off. Recv 2 1 off (fragment_from shards_ex kmeans_ex 2 (2 - 1))
                 \<in> set (fst (res ! (2 - 1))))"
    by (rule left [rule_format, of 2 1]) simp
  then have l: "Isend 1 1 [32] \<in> set (fst (res ! 2)) \<and>
      (\<exists>off. Recv 2 1 off [32] \<in> set (fst (res ! 1)))"
    unfolding e f1 .
  have "Isend (1 + 1) (3 + 1) (fragment_from shards_ex kmeans_ex 1 (1 + 1)) \<in> set (fst (res ! 1)) \<and>
        (\<exists>off. Recv 1 (3 + 1) off (fragment_from shards_ex kmeans_ex 1 (1 + 1))
                 \<in> set (fst (res ! (1 + 1))))"
    by (rule right [rule_format, of 1 1]) simp
  then have r: "Isend 2 4 [20] \<in> set (fst (res ! 1)) \<and>
      (\<exists>off. Recv 1 4 off [20] \<in> set (fst (res ! 2)))"
    unfolding e f2 .
  show ?thesis
    using consistent_ex res l r by blast
qed

subsection \<open>\<^verbatim>\<open>IndexData\<close> where every shard holds a point\<close>

lemma shuffle_prefix_ok:
  assumes "RandIntRange_ok R" "i + m \<le> length indices"
  shows "\<exists>out. shuffle_prefix R m i indices = Inr out \<and> mset out = mset indices"
  using assms(2)
proof (induction m arbitrary: i indices)
  case 0
  then show ?case by simp
next
  case (Suc m)
  let ?r = "R i (int i) (int (length indices))"
  have i: "i < length indices" using Suc.prems by simp
  then have "int i < int (length indices)" by simp
  with assms(1) have r: "int i \<le> ?r" "?r < int (length indices)"
    unfolding RandIntRange_ok_def by blast+
  then have r0: "0 \<le> ?r" and rn: "nat ?r < length indices" by simp_all
  let ?next = "indices[i := indices ! nat ?r, nat ?r := indices ! i]"
  have ms: "mset ?next = mset indices"
    using rn i by (rule mset_swap)
  have "Suc i + m \<le> length ?next" using Suc.prems by simp
  from Suc.IH [OF this] obtain out where
    out: "shuffle_prefix R m (Suc i) ?next = Inr out" "mset out = mset ?next"
    by blast
  have "shuffle_prefix R (Suc m) i indices = Inr out"
    using i r0 r(2) out(1) by (simp add: Let_def)
  with out(2) ms show ?case by simp
qed

lemma SelectSubset_ok:
  assumes "RandIntRange_ok R" "owned \<noteq> []"
    and "d_floor_mul A p (int (length owned)) \<le> int (length owned)"
  shows "\<exists>sampled. SelectSubset' A p R owned = Inr sampled
       \<and> (\<forall>x\<in>set sampled. 0 \<le> x \<and> x < int (length owned))"
proof -
  let ?n = "nat (max (d_floor_mul A p (int (length owned))) 1)"
  let ?ix = "map int [0..<length owned]"
  have "1 \<le> int (length owned)" using assms(2) by (cases owned) simp_all
  with assms(3) have "max (d_floor_mul A p (int (length owned))) 1 \<le> int (length owned)"
    by simp
  then have "?n \<le> length owned" by linarith
  then have "0 + ?n \<le> length ?ix" by simp
  from shuffle_prefix_ok [OF assms(1) this] obtain out where
    out: "shuffle_prefix R ?n 0 ?ix = Inr out" "mset out = mset ?ix"
    by blast
  have "set out = set ?ix" using out(2) by (rule mset_eq_setD)
  then have "\<forall>x\<in>set (take ?n out). 0 \<le> x \<and> x < int (length owned)"
    by (auto dest!: in_set_takeD)
  moreover have "SelectSubset' A p R owned = Inr (take ?n out)"
    using out(1) by (simp add: SelectSubset'_def Let_def)
  ultimately show ?thesis by blast
qed

lemma CopyPointsIntoTemporaryBuffer_ok:
  assumes "\<forall>x\<in>set sampled. 0 \<le> x \<and> x < int (length owned)"
  shows "\<exists>buf. CopyPointsIntoTemporaryBuffer' owned sampled = Inr buf
       \<and> length buf = length sampled"
  using assms by (induction sampled) auto

lemma pad_top_leaf_nodes_ok:
  assumes "table_outbox_group_comm_size' t = int (comm_size comm)"
    and "RandInt_ok RandInt"
    and "top_leaf_nodes \<noteq> []"
    and "same_dimension dims top_leaf_nodes"
  shows "\<exists>new. pad_top_leaf_nodes A t comm RandInt top_leaf_nodes = Inr (top_leaf_nodes @ new)
       \<and> length (top_leaf_nodes @ new) = max (comm_size comm) (length top_leaf_nodes)"
proof (cases "length top_leaf_nodes < comm_size comm")
  case True
  obtain first rest where fr: "top_leaf_nodes = first # rest"
    using assms(3) by (cases top_leaf_nodes) auto
  let ?s = "max 1 (RandInt 0 (int (length top_leaf_nodes)))"
  have s: "0 < ?s" by simp
  from add_dummy_nodes_ok [OF assms(2,3,4) s,
      of A "nat (table_outbox_group_comm_size' t - int (length top_leaf_nodes))" 1]
  obtain new where new:
    "add_dummy_nodes A RandInt ?s dims
       (nat (table_outbox_group_comm_size' t - int (length top_leaf_nodes))) 1 top_leaf_nodes
     = Inr (top_leaf_nodes @ new)"
    "length new = nat (table_outbox_group_comm_size' t - int (length top_leaf_nodes))"
    by blast
  have d: "length (center first) = dims"
    using assms(4) fr by (simp add: same_dimension_hd)
  have run: "pad_top_leaf_nodes A t comm RandInt top_leaf_nodes = Inr (top_leaf_nodes @ new)"
    using True new(1) d fr by (simp add: pad_top_leaf_nodes_def ReplenishNodes'_def Let_def)
  have len: "length (top_leaf_nodes @ new) = max (comm_size comm) (length top_leaf_nodes)"
    using new(2) assms(1) True by simp
  show ?thesis using run len by blast
next
  case False
  then have "pad_top_leaf_nodes A t comm RandInt top_leaf_nodes = Inr (top_leaf_nodes @ [])"
    by (simp add: pad_top_leaf_nodes_def)
  moreover have "length (top_leaf_nodes @ []) = max (comm_size comm) (length top_leaf_nodes)"
    using False by simp
  ultimately show ?thesis by blast
qed

lemma closest_leaf_upper:
  "snd best < int (j + length leaves) \<Longrightarrow>
   snd (closest_leaf A D point leaves j best) < int (j + length leaves)"
proof (induction leaves arbitrary: j best)
  case Nil
  then show ?case by simp
next
  case (Cons leaf leaves)
  have a: "snd (D leaf point, int j) < int (Suc j + length leaves)" by simp
  have b: "snd best < int (Suc j + length leaves)" using Cons.prems by simp
  show ?case
    using Cons.IH [OF a] Cons.IH [OF b] by (simp add: Let_def)
qed

lemma closest_leaf_lower:
  "0 \<le> snd best \<Longrightarrow> 0 \<le> snd (closest_leaf A D point leaves j best)"
  by (induction leaves arbitrary: j best) (simp_all add: Let_def)

lemma closest_leaf_in_range:
  assumes "leaves \<noteq> []" "d_less A (D (hd leaves) point) (d_max A)"
  shows "0 \<le> snd (closest_leaf A D point leaves 0 (d_max A, - 1))"
    and "snd (closest_leaf A D point leaves 0 (d_max A, - 1)) < int (length leaves)"
proof -
  obtain first rest where fr: "leaves = first # rest"
    using assms(1) by (cases leaves) auto
  have step: "closest_leaf A D point leaves 0 (d_max A, - 1) =
      closest_leaf A D point rest (Suc 0) (D first point, 0)"
    using assms(2) fr by (simp add: Let_def)
  show "0 \<le> snd (closest_leaf A D point leaves 0 (d_max A, - 1))"
    unfolding step by (rule closest_leaf_lower) simp
  have "snd (closest_leaf A D point rest (Suc 0) (D first point, 0)) < int (Suc 0 + length rest)"
    by (rule closest_leaf_upper) simp
  then show "snd (closest_leaf A D point leaves 0 (d_max A, - 1)) < int (length leaves)"
    unfolding step using fr by simp
qed

lemma count_members_ok:
  assumes "leaves \<noteq> []" "length counts = length leaves"
    and "\<forall>point\<in>set owned. d_less A (D (hd leaves) point) (d_max A)"
  shows "\<exists>c. count_members A D leaves owned counts = Inr c \<and> length c = length leaves"
  using assms(2,3)
proof (induction owned arbitrary: counts)
  case Nil
  then show ?case by simp
next
  case (Cons point owned)
  let ?m = "snd (closest_leaf A D point leaves 0 (d_max A, - 1))"
  have less: "d_less A (D (hd leaves) point) (d_max A)" using Cons.prems(2) by simp
  have m: "0 \<le> ?m" "?m < int (length counts)"
    using closest_leaf_in_range [where A = A and D = D and point = point, OF assms(1) less]
      Cons.prems(1) by simp_all
  let ?next = "counts[nat ?m := d_add A (counts ! nat ?m) (d_one A)]"
  have "length ?next = length leaves" using Cons.prems(1) by simp
  moreover have "\<forall>point\<in>set owned. d_less A (D (hd leaves) point) (d_max A)"
    using Cons.prems(2) by simp
  ultimately obtain c where
    c: "count_members A D leaves owned ?next = Inr c" "length c = length leaves"
    using Cons.IH by blast
  have "count_members A D leaves (point # owned) counts = Inr c"
    using m c(1) by (simp add: Let_def)
  with c(2) show ?case by blast
qed

lemma GetLeafNodeMembershipCounts_ok:
  assumes "leaves \<noteq> []"
    and "\<forall>point\<in>set owned. d_less A (D (hd leaves) point) (d_max A)"
  shows "\<exists>c. GetLeafNodeMembershipCounts' A D leaves owned = Inr c \<and> length c = length leaves"
proof -
  have "length (replicate (length leaves) (d_zero A)) = length leaves" by simp
  from count_members_ok [where A = A and D = D, OF assms(1) this assms(2)]
  show ?thesis unfolding GetLeafNodeMembershipCounts'_def .
qed

lemma columns_of_owned_data: "owned_data t = Inr s \<Longrightarrow> columns_of t = s"
  by (auto simp add: owned_data_def columns_of_def split: option.splits)

lemma columns_of_group:
  assumes "map owned_data ts = map Inr shards"
  shows "map columns_of ts = shards"
proof (rule nth_equalityI)
  show len: "length (map columns_of ts) = length shards"
    using arg_cong [OF assms, of length] by simp
  fix i assume "i < length (map columns_of ts)"
  then have i: "i < length ts" by simp
  have "map owned_data ts ! i = map Inr shards ! i" by (simp only: assms)
  then have "owned_data (ts ! i) = Inr (shards ! i)" using i len by simp
  then show "map columns_of ts ! i = shards ! i"
    using i by (simp add: columns_of_owned_data)
qed

text \<open>
  Where the shard of process \<open>r\<close> holds a point, the results of the solver are
  consistent and the collaborators keep their contracts, \<^verbatim>\<open>IndexData\<close> returns on process
  \<open>r\<close>, with the trace below and the new shard that the migration delivers, rebuilt.
\<close>

lemma IndexData_process_ok:
  assumes c: "solver_consistent P shards kmeans"
    and o: "map owned_data ts = map Inr shards"
    and e: "environment_ok E P ts shards"
    and r: "r < P"
    and n: "shards ! r \<noteq> []"
  shows "IndexData_process E P ts kmeans r =
     Inr (sample_aggregation (comm_of P r) @ [Broadcast] @
          fst (TakeLeafNodeOwnerShip' (comm_of P r) (env_Assign E r)) @
          matched_trace P shards kmeans r @ [AllGather, AllGather],
          env_build E (concat (map (\<lambda>q. fragment_from shards kmeans q r) (arrival_order P r))))"
proof -
  let ?A = "env_arith E"
  let ?leaves = "env_broadcast_leaves E"
  have lens: "length shards = P" using c by (simp add: solver_consistent_def)
  have lent: "length ts = P" using arg_cong [OF o, of length] lens by simp
  have cols: "map columns_of ts = shards" by (rule columns_of_group [OF o])
  have "map owned_data ts ! r = map Inr shards ! r" by (simp only: o)
  then have own: "owned_data (ts ! r) = Inr (shards ! r)" using r lens lent by simp
  have sin: "shards ! r \<in> set shards" using r lens by simp
  have tin: "ts ! r \<in> set ts" using r lent by simp
  from e have rr: "RandIntRange_ok (env_RandIntRange E r)"
    and ri: "RandInt_ok (env_RandInt E r)"
    and fl: "d_floor_mul ?A (env_sample_probability E) (int (length (shards ! r)))
               \<le> int (length (shards ! r))"
    and ne: "?leaves \<noteq> []"
    and gs: "table_outbox_group_comm_size' (ts ! r) = int P"
    and ds: "\<forall>point\<in>set (shards ! r).
               d_less ?A (env_MidDistanceSq E (hd ?leaves) point) (d_max ?A)"
    and asg: "0 \<le> env_Assign E r" "env_Assign E r < int (max P (length ?leaves))"
    using sin tin r unfolding environment_ok_def by blast+
  from e obtain dims where sd: "same_dimension dims ?leaves"
    unfolding environment_ok_def by blast
  from SelectSubset_ok [OF rr n fl] obtain sampled where
    s1: "SelectSubset' ?A (env_sample_probability E) (env_RandIntRange E r) (shards ! r)
           = Inr sampled"
    and s2: "\<forall>x\<in>set sampled. 0 \<le> x \<and> x < int (length (shards ! r))"
    by blast
  from CopyPointsIntoTemporaryBuffer_ok [OF s2] obtain buf where
    s3: "CopyPointsIntoTemporaryBuffer' (shards ! r) sampled = Inr buf"
    by blast
  have gs': "table_outbox_group_comm_size' (ts ! r) = int (comm_size (comm_of P r))"
    using gs by (simp add: comm_size_comm_of)
  from pad_top_leaf_nodes_ok [OF gs' ri ne sd, of ?A] obtain new where
    s4: "pad_top_leaf_nodes ?A (ts ! r) (comm_of P r) (env_RandInt E r) ?leaves
           = Inr (?leaves @ new)"
    and s5: "length (?leaves @ new) = max P (length ?leaves)"
    by (auto simp add: comm_size_comm_of)
  have ne': "?leaves @ new \<noteq> []" using ne by simp
  have hd': "hd (?leaves @ new) = hd ?leaves" using ne by simp
  have ds': "\<forall>point\<in>set (shards ! r).
      d_less ?A (env_MidDistanceSq E (hd (?leaves @ new)) point) (d_max ?A)"
    using ds by (simp only: hd')
  from GetLeafNodeMembershipCounts_ok [where A = ?A and D = "env_MidDistanceSq E", OF ne' ds']
  obtain cnt where
    s6: "GetLeafNodeMembershipCounts' ?A (env_MidDistanceSq E) (?leaves @ new) (shards ! r)
           = Inr cnt"
    by blast
  have idx: "0 \<le> snd (TakeLeafNodeOwnerShip' (comm_of P r) (env_Assign E r)
                         :: 'a list event list \<times> int)"
    "snd (TakeLeafNodeOwnerShip' (comm_of P r) (env_Assign E r) :: 'a list event list \<times> int)
       < int (length (?leaves @ new))"
    using asg ne unfolding s5 by (auto simp add: TakeLeafNodeOwnerShip'_def)
  note s7 = ReadjustCentroids_process_consistent [OF c r]
  show ?thesis
    unfolding IndexData_process_def Let_def own cols
    using idx by (simp only: s1 s3 s4 s6 s7 sum.case prod.case if_True simp_thms)
qed

text \<open>
  The conservation of the shard sizes. On a group in which every shard holds a point,
  with consistent results of the solver and collaborators that keep their contracts,
  \<^verbatim>\<open>IndexData\<close> returns on every process and the sum of the shard sizes after the call is
  the sum before it.
\<close>

lemma IndexData_group_conserves_sizes:
  assumes c: "solver_consistent P shards kmeans"
    and o: "map owned_data ts = map Inr shards"
    and e: "environment_ok E P ts shards"
    and n: "\<forall>s\<in>set shards. s \<noteq> []"
  shows "\<exists>res. IndexData_group E P ts kmeans = Inr res
       \<and> length res = P
       \<and> (\<Sum>s\<leftarrow>map snd res. length s) = (\<Sum>s\<leftarrow>shards. length s)"
proof -
  let ?new = "\<lambda>r. concat (map (\<lambda>q. fragment_from shards kmeans q r) (arrival_order P r))"
  let ?tr = "\<lambda>r. sample_aggregation (comm_of P r) @ [Broadcast] @
          fst (TakeLeafNodeOwnerShip' (comm_of P r) (env_Assign E r)) @
          matched_trace P shards kmeans r @ [AllGather, AllGather]"
  let ?res = "map (\<lambda>r. (?tr r, env_build E (?new r))) [0..<P]"
  have lens: "length shards = P" using c by (simp add: solver_consistent_def)
  have each: "IndexData_process E P ts kmeans r = Inr (?tr r, env_build E (?new r))"
    if "r \<in> set [0..<P]" for r
  proof -
    from that have r: "r < P" by simp
    then have "shards ! r \<noteq> []" using n lens by simp
    from IndexData_process_ok [OF c o e r this] show ?thesis .
  qed
  have run: "IndexData_group E P ts kmeans = Inr ?res"
    unfolding IndexData_group_def by (rule collect_map_Inr) (rule each)
  have b: "length (env_build E xs) = length xs" for xs
    using e unfolding environment_ok_def by blast
  have "(\<Sum>s\<leftarrow>map snd ?res. length s) = (\<Sum>r\<leftarrow>[0..<P]. length (?new r))"
    by (simp add: comp_def b)
  also have "\<dots> = size (\<Sum>r\<leftarrow>[0..<P]. mset (?new r))"
    using size_sum_list_mset [of "map ?new [0..<P]"] by (simp add: comp_def)
  also have "\<dots> = (\<Sum>s\<leftarrow>shards. length s)"
    by (simp only: mset_new_shards [OF c] size_sum_list_mset)
  finally have ls: "(\<Sum>s\<leftarrow>map snd ?res. length s) = (\<Sum>s\<leftarrow>shards. length s)" .
  have len: "length ?res = P" by simp
  show ?thesis
    by (rule exI [of _ ?res]) (intro conjI run len ls)
qed

text \<open>
  The example group of three processes meets the hypotheses: \<^verbatim>\<open>IndexData\<close> returns on it
  and its seven points are seven points afterwards.
\<close>

lemma points_ex_consistent: "solver_consistent 3 points_ex kmeans_ex"
  by (simp add: solver_consistent_def points_ex_def kmeans_ex_def upt_conv_Cons)

lemma owned_data_tables_ex: "map owned_data tables_ex = map Inr points_ex"
  by (simp add: tables_ex_def points_ex_def loaded_ex_def owned_data_def Init_def)

lemma environment_ok_ex: "environment_ok env_ex 3 tables_ex points_ex"
  by (simp add: environment_ok_def env_ex_def tables_ex_def points_ex_def loaded_ex_def
      Init_def RandIntRange_ok_def RandInt_ok_def exact_arith_def same_dimension_def
      exI [of _ 1])

lemma IndexData_group_ex:
  "\<exists>res. IndexData_group env_ex 3 tables_ex kmeans_ex = Inr res
     \<and> length res = 3 \<and> (\<Sum>s\<leftarrow>map snd res. length s) = 7"
proof -
  have n: "\<forall>s\<in>set points_ex. s \<noteq> []" by (simp add: points_ex_def)
  have "(\<Sum>s\<leftarrow>points_ex. length s) = 7" by (simp add: points_ex_def)
  with IndexData_group_conserves_sizes
    [OF points_ex_consistent owned_data_tables_ex environment_ok_ex n]
  show ?thesis by simp
qed

subsection \<open>A group of one process\<close>

lemma arrival_order_single: "arrival_order (Suc 0) 0 = [0]"
  by (simp add: arrival_order_def)

lemma matched_trace_single:
  "matched_trace 1 [owned] [km] 0 =
     [KMeansCompute, SelfCopy 0 (contribution owned (snd km) 0), WaitAll, WaitAll, Barrier]"
  by (simp add: matched_trace_def isends_def left_isends_def right_isends_def
      left_contributions_size_def right_contributions_size_def comm_of_def fragment_from_def)

text \<open>
  In a group of one process whose shard holds a point, \<^verbatim>\<open>IndexData\<close> returns, its trace
  holds no point-to-point send or receive (the sample aggregation is a gather and a
  barrier, the two contribution windows of \<^verbatim>\<open>ReadjustCentroids_\<close> are empty) and no call
  of the auction, and \<^verbatim>\<open>TakeLeafNodeOwnerShip_\<close> returns the index 0.
\<close>

lemma IndexData_single_process:
  fixes E :: "'d environment"
  assumes c: "solver_consistent 1 [owned] [km]"
    and o: "owned_data t = Inr owned"
    and e: "environment_ok E 1 [t] [owned]"
    and n: "owned \<noteq> []"
  shows "\<exists>tr new. IndexData_process E 1 [t] [km] 0 = Inr (tr, new)
     \<and> filter is_point_to_point tr = []
     \<and> AuctionAssign \<notin> set tr
     \<and> TakeLeafNodeOwnerShip' (comm_of 1 0) (env_Assign E 0) = ([] :: 'd point event list, 0)"
proof -
  have o': "map owned_data [t] = map Inr [owned]" using o by simp
  have r: "(0::nat) < 1" by simp
  have n': "[owned] ! 0 \<noteq> []" using n by simp
  have take: "TakeLeafNodeOwnerShip' (comm_of 1 0) (env_Assign E 0)
      = ([] :: 'd point event list, 0)"
    by (simp add: TakeLeafNodeOwnerShip'_def comm_of_def)
  have agg: "sample_aggregation (comm_of 1 0) = ([Gather, Barrier] :: 'd point event list)"
    by (simp add: sample_aggregation_def comm_of_def)
  let ?tr = "[Gather, Barrier, Broadcast, KMeansCompute,
      SelfCopy 0 (contribution owned (snd km) 0), WaitAll, WaitAll, Barrier,
      AllGather, AllGather]"
  let ?new = "env_build E (concat (map (\<lambda>q. fragment_from [owned] [km] q 0) (arrival_order 1 0)))"
  have run: "IndexData_process E 1 [t] [km] 0 = Inr (?tr, ?new)"
    unfolding IndexData_process_ok [OF c o' e r n'] take agg matched_trace_single by simp
  have p: "filter is_point_to_point ?tr = []" by simp
  have a: "AuctionAssign \<notin> set ?tr" by simp
  show ?thesis
    by (rule exI [of _ ?tr], rule exI [of _ ?new]) (intro conjI run p a take)
qed

subsection \<open>\<^verbatim>\<open>IndexData\<close> on a shard without points\<close>

text \<open>
  \<^verbatim>\<open>SelectSubset_\<close> takes at least one sample. On a shard without points the first
  iteration of its loop reads \<^verbatim>\<open>indices[0]\<close> of an empty vector, whatever the arithmetic,
  the sample probability and the generator.
\<close>

lemma SelectSubset_empty: "SelectSubset' A p R [] = Inl OutOfBounds"
proof -
  obtain m where m: "nat (max (d_floor_mul A p 0) 1) = Suc m"
    by (cases "nat (max (d_floor_mul A p 0) 1)") auto
  show ?thesis by (simp add: SelectSubset'_def m)
qed

lemma IndexData_process_empty:
  assumes "owned_data (ts ! r) = Inr []"
  shows "IndexData_process E P ts kmeans r = Inl OutOfBounds"
  by (simp add: IndexData_process_def assms SelectSubset_empty)

lemma pair_empty_consistent:
  "solver_consistent 2 (map columns_of pair_empty_ex) pair_kmeans_ex"
  by (simp add: solver_consistent_def pair_empty_ex_def pair_kmeans_ex_def columns_of_def
      Init_def upt_conv_Cons)


text \<open>
  C7. In a group of one process whose shard holds a point, \<^verbatim>\<open>IndexData\<close> completes without
  a point-to-point message and without the auction (\<open>IndexData_single_process\<close>). In a
  group of one process whose shard is empty it does not complete: \<^verbatim>\<open>SelectSubset_\<close> reads
  \<^verbatim>\<open>indices[0]\<close> of an empty vector before any communication. The solver's total 0 is
  consistent with the empty list of destinations.
\<close>

theorem single_process_empty_shard_out_of_bounds:
  "owned_data (single_empty_ex ! 0) = Inr []
   \<and> SelectSubset' exact_arith (1 / 2) (env_RandIntRange env_ex 0) ([] :: real point list)
       = Inl OutOfBounds
   \<and> IndexData_process env_ex 1 single_empty_ex [(0, [])] 0 = Inl OutOfBounds"
proof -
  have o: "owned_data (single_empty_ex ! 0) = Inr []"
    by (simp add: single_empty_ex_def owned_data_def Init_def)
  from o have "IndexData_process env_ex 1 single_empty_ex [(0, [])] 0 = Inl OutOfBounds"
    by (rule IndexData_process_empty)
  with o show ?thesis by (simp add: SelectSubset_empty)
qed

end
